theory Spec2Isabelle
  imports Complex_Main "HOL-Library.AList" "HOL-Library.Multiset"
begin

section \<open>Data model (lib/types.ts)\<close>

text \<open>
  The interfaces \<^verbatim>\<open>Video\<close>, \<^verbatim>\<open>Transcription\<close>, \<^verbatim>\<open>Word\<close> and \<^verbatim>\<open>Utterance\<close>.
  Field names that clash with constants of HOL (\<^verbatim>\<open>id\<close>, \<^verbatim>\<open>size\<close>) or with each
  other carry a prefix. String-literal union types are datatypes; an optional field
  is an \<open>option\<close>. The numbers of a word (offsets in milliseconds, a confidence
  score) are never computed on by the code modelled here.
\<close>

datatype Word = Word (w_text: string) (w_start: int) (w_end: int) (w_confidence: real)

datatype Utterance =
  Utterance (u_speaker: string) (u_text: string) (u_start: int) (u_end: int)
    (u_confidence: real) (u_words: "Word list")

datatype transcription_status = TQueued | TProcessing | TCompleted | TError

datatype video_status = Uploading | Processing | Completed | ErrorStatus

record Transcription =
  t_id :: string
  t_text :: string
  t_status :: transcription_status
  words :: "Word list option"
  utterances :: "Utterance list option"
  completedAt :: "string option"

record Video =
  v_id :: string
  v_name :: string
  v_url :: string
  v_size :: nat
  uploadedAt :: string
  transcription :: "Transcription option"
  v_status :: video_status

section \<open>Upload validation (components/VideoUpload.tsx, validateFile)\<close>

text \<open>The two fields of a browser \<^verbatim>\<open>File\<close> that \<^verbatim>\<open>validateFile\<close> reads, and its name.\<close>

record File =
  f_name :: string
  f_type :: string
  f_size :: nat

definition maxSize :: nat where
  "maxSize = 250 * 1024 * 1024"

definition allowedTypes :: "string list" where
  "allowedTypes = [''video/mp4'', ''video/webm'', ''video/ogg'', ''video/quicktime'']"

definition typeRejection :: string where
  "typeRejection = ''Please upload a valid video file (MP4, WebM, OGG, or MOV)''"

definition sizeRejection :: string where
  "sizeRejection = ''File size must be less than 250MB''"

text \<open>\<^verbatim>\<open>validateFile\<close> returns the rejection message, or \<^verbatim>\<open>null\<close> (here \<open>None\<close>) to accept.\<close>

definition validateFile :: "File \<Rightarrow> string option" where
  "validateFile file =
     (if f_type file \<notin> set allowedTypes then Some typeRejection
      else if f_size file > maxSize then Some sizeRejection
      else None)"

section \<open>JavaScript strings and Maps\<close>

text \<open>
  \<^verbatim>\<open>s.split(c)\<close> for a one-character separator: the pieces between the occurrences
  of \<open>c\<close>, never an empty array (\<^verbatim>\<open>''.split('_')\<close> is \<^verbatim>\<open>['']\<close>).
\<close>

fun js_split :: "char \<Rightarrow> string \<Rightarrow> string list" where
  "js_split c [] = [[]]"
| "js_split c (x # xs) =
     (if x = c then [] # js_split c xs
      else (case js_split c xs of [] \<Rightarrow> [[x]] | p # ps \<Rightarrow> (x # p) # ps))"

text \<open>\<^verbatim>\<open>s.indexOf(c)\<close>: the position of the first \<open>c\<close>, or -1.\<close>

definition indexOf :: "char \<Rightarrow> string \<Rightarrow> int" where
  "indexOf c s = (if c \<in> set s then int (length (takeWhile (\<lambda>x. x \<noteq> c) s)) else - 1)"

text \<open>\<^verbatim>\<open>s.substring(i)\<close>: a negative start counts as 0, one past the end gives \<^verbatim>\<open>''\<close>.\<close>

definition substring :: "string \<Rightarrow> int \<Rightarrow> string" where
  "substring s i = drop (nat i) s"

text \<open>\<^verbatim>\<open>a || b\<close> on strings: the empty string is the only falsy string.\<close>

definition or_else :: "string \<Rightarrow> string \<Rightarrow> string" where
  "or_else a b = (if a = [] then b else a)"

text \<open>
  A JavaScript \<^verbatim>\<open>Map\<close> is an association list in insertion order: \<^verbatim>\<open>get\<close> is
  \<^const>\<open>map_of\<close>, \<^verbatim>\<open>has\<close> is \<open>map_of m k \<noteq> None\<close>, \<^verbatim>\<open>set\<close> is \<^const>\<open>AList.update\<close> (an
  existing key keeps its position, a new key goes last), \<^verbatim>\<open>delete\<close> is
  \<^const>\<open>AList.delete\<close>, and \<^verbatim>\<open>values()\<close> lists the second components in order.
\<close>

type_synonym ('k, 'v) js_map = "('k \<times> 'v) list"

section \<open>Server state (app/actions/videos.ts)\<close>

text \<open>
  The module keeps one \<^verbatim>\<open>Map<string, Video>\<close> named \<^verbatim>\<open>videos\<close>. Its values are
  object references, and \<^verbatim>\<open>getVideos\<close> mutates objects that several maps share, so
  the state is an explicit store: \<open>heap\<close> holds the objects (an address is an index,
  a new object goes at the end) and \<open>videos\<close> maps an id to an address.
\<close>

record state =
  heap :: "Video list"
  videos :: "(string, nat) js_map"

definition alloc :: "Video \<Rightarrow> state \<Rightarrow> nat \<times> state" where
  "alloc v st = (length (heap st), st\<lparr>heap := heap st @ [v]\<rparr>)"

text \<open>Every reference held by the map points to an object, and the keys of a Map are distinct.\<close>

definition wf_state :: "state \<Rightarrow> bool" where
  "wf_state st =
     (distinct (map fst (videos st)) \<and> (\<forall>a \<in> set (map snd (videos st)). a < length (heap st)))"

text \<open>What a server action returns: \<^verbatim>\<open>{ success, error?, data? }\<close>.\<close>

record 'a response =
  success :: bool
  error :: "string option"
  data :: "'a option"

text \<open>
  \<^verbatim>\<open>saveVideoMetadata(video)\<close>: the id is \<^verbatim>\<open>Date.now().toString()\<close>, passed in as
  \<open>now\<close>; the \<open>v_id\<close> of the argument stands for the field \<^verbatim>\<open>Omit<Video, 'id'>\<close> lacks.
\<close>

definition saveVideoMetadata :: "string \<Rightarrow> Video \<Rightarrow> state \<Rightarrow> Video response \<times> state" where
  "saveVideoMetadata now video st =
     (let newVideo = video\<lparr>v_id := now\<rparr>;
          (a, st') = alloc newVideo st
      in (\<lparr>success = True, error = None, data = Some newVideo\<rparr>,
          st'\<lparr>videos := AList.update now a (videos st')\<rparr>))"

definition updateVideoStatus ::
  "string \<Rightarrow> video_status \<Rightarrow> Transcription option \<Rightarrow> state \<Rightarrow> Video response \<times> state" where
  "updateVideoStatus videoId status transcription' st =
     (case map_of (videos st) videoId of
        None \<Rightarrow> (\<lparr>success = False, error = Some ''Video not found'', data = None\<rparr>, st)
      | Some a \<Rightarrow>
          (let video = (heap st ! a)\<lparr>v_status := status\<rparr>;
               video = (case transcription' of
                          None \<Rightarrow> video
                        | Some t \<Rightarrow> video\<lparr>transcription := Some t\<rparr>)
           in (\<lparr>success = True, error = None, data = Some video\<rparr>,
               st\<lparr>heap := (heap st)[a := video], videos := AList.update videoId a (videos st)\<rparr>)))"

definition getVideoById :: "string \<Rightarrow> state \<Rightarrow> Video response" where
  "getVideoById videoId st =
     (case map_of (videos st) videoId of
        None \<Rightarrow> \<lparr>success = False, error = Some ''Video not found'', data = None\<rparr>
      | Some a \<Rightarrow> \<lparr>success = True, error = None, data = Some (heap st ! a)\<rparr>)"

definition deleteVideo :: "string \<Rightarrow> state \<Rightarrow> unit response \<times> state" where
  "deleteVideo videoId st =
     (let deleted = (map_of (videos st) videoId \<noteq> None)
      in (\<lparr>success = deleted, error = (if deleted then None else Some ''Video not found''),
           data = None\<rparr>,
          st\<lparr>videos := AList.delete videoId (videos st)\<rparr>))"

section \<open>Storage as getVideos sees it\<close>

text \<open>
  Firebase Storage is outside the repository; what its calls answer is the input.
  A value that is thrown is an \<^verbatim>\<open>Error\<close> with a message or anything else.
  An item of \<^verbatim>\<open>listAll(videosRef)\<close> comes with the answers the loop body gets for it:
  \<^verbatim>\<open>getDownloadURL\<close> and \<^verbatim>\<open>getMetadata\<close> (None when the call throws) and the reading
  of \<^verbatim>\<open>Date.now().toString()\<close> at that moment.
  The metadata namespace is a listing of file names and, per file name of
  \<^verbatim>\<open>metadata/\<close>, the document that \<^verbatim>\<open>getDownloadURL\<close>, \<^verbatim>\<open>fetch\<close> and \<^verbatim>\<open>json()\<close> deliver
  (None when one of them throws or the file does not exist).
\<close>

datatype thrown = ErrorObj string | OtherValue

record FullMetadata =
  md_size :: nat
  timeCreated :: string

record StorageItem =
  item_name :: string
  getDownloadURL :: "string option"
  getMetadata :: "FullMetadata option"
  dateNow :: string

record storage =
  storageHandle :: "thrown option"
  metadataList :: "string list option"
  metadataFile :: "string \<Rightarrow> Video option"
  videoList :: "StorageItem list option"

definition loadVideoDataFromStorage :: "storage \<Rightarrow> string \<Rightarrow> Video option" where
  "loadVideoDataFromStorage S videoId = metadataFile S (videoId @ ''.json'')"

section \<open>The reconciler (getVideos)\<close>

text \<open>\<^verbatim>\<open>url.split('?')[0]\<close>\<close>

definition cleanUrl :: "string \<Rightarrow> string" where
  "cleanUrl url = hd (js_split CHR ''?'' url)"

text \<open>\<^verbatim>\<open>fileName.split('_')[0] || Date.now().toString()\<close>\<close>

definition videoIdOf :: "string \<Rightarrow> string \<Rightarrow> string" where
  "videoIdOf fileName now = or_else (hd (js_split CHR ''_'' fileName)) now"

text \<open>\<^verbatim>\<open>fileName.substring(fileName.indexOf('_') + 1) || fileName\<close>\<close>

definition displayName :: "string \<Rightarrow> string" where
  "displayName fileName = or_else (substring fileName (indexOf CHR ''_'' fileName + 1)) fileName"

text \<open>\<^verbatim>\<open>video.transcription?.text\<close> as a condition: a transcription with a non-empty text.\<close>

definition hasTranscriptionText :: "Video \<Rightarrow> bool" where
  "hasTranscriptionText v = (case transcription v of None \<Rightarrow> False | Some t \<Rightarrow> t_text t \<noteq> [])"

text \<open>
  The body of the first loop: a document that cannot be fetched is skipped, any other
  becomes a new object, indexed by its own url without the query string.
\<close>

definition loadMetadataItem ::
  "storage \<Rightarrow> string \<Rightarrow> state \<times> (string, nat) js_map \<Rightarrow> state \<times> (string, nat) js_map" where
  "loadMetadataItem S metaName = (\<lambda>(st, metadataByUrl).
     case metadataFile S metaName of
       None \<Rightarrow> (st, metadataByUrl)
     | Some videoData \<Rightarrow>
         (let (a, st') = alloc videoData st
          in (st', AList.update (cleanUrl (v_url videoData)) a metadataByUrl)))"

text \<open>
  The four steps of the second loop's body thread \<^verbatim>\<open>let video: Video | null\<close> and the
  state. Priority 1 starts from \<^verbatim>\<open>null\<close>; each later step does nothing once
  \<^verbatim>\<open>video\<close> is set.
\<close>

definition priority1 ::
  "(string, nat) js_map \<Rightarrow> string \<Rightarrow> string \<Rightarrow> FullMetadata \<Rightarrow> state \<Rightarrow> nat option \<times> state" where
  "priority1 metadataByUrl id' url metadata st =
     (case map_of metadataByUrl (cleanUrl url) of
        None \<Rightarrow> (None, st)
      | Some a \<Rightarrow>
          (Some a,
           st\<lparr>heap := (heap st)[a := (heap st ! a)\<lparr>v_id := id', v_url := url, v_size := md_size metadata\<rparr>],
              videos := AList.update id' a (videos st)\<rparr>))"

definition priority2 ::
  "storage \<Rightarrow> string \<Rightarrow> string \<Rightarrow> FullMetadata \<Rightarrow> nat option \<times> state \<Rightarrow> nat option \<times> state" where
  "priority2 S id' url metadata = (\<lambda>(video, st).
     case video of
       Some a \<Rightarrow> (video, st)
     | None \<Rightarrow>
         (case loadVideoDataFromStorage S id' of
            None \<Rightarrow> (None, st)
          | Some savedVideoData \<Rightarrow>
              (let (a, st') = alloc (savedVideoData\<lparr>v_url := url, v_size := md_size metadata\<rparr>) st
               in (Some a, st'\<lparr>videos := AList.update id' a (videos st')\<rparr>))))"

definition priority3 :: "string \<Rightarrow> string \<Rightarrow> nat option \<times> state \<Rightarrow> nat option \<times> state" where
  "priority3 id' url = (\<lambda>(video, st).
     case video of
       Some a \<Rightarrow> (video, st)
     | None \<Rightarrow>
         (case map_of (videos st) id' of
            None \<Rightarrow> (None, st)
          | Some a \<Rightarrow> (Some a, st\<lparr>heap := (heap st)[a := (heap st ! a)\<lparr>v_url := url\<rparr>]\<rparr>)))"

definition priority4 ::
  "string \<Rightarrow> string \<Rightarrow> string \<Rightarrow> FullMetadata \<Rightarrow> nat option \<times> state \<Rightarrow> nat \<times> state" where
  "priority4 fileName id' url metadata = (\<lambda>(video, st).
     case video of
       Some a \<Rightarrow> (a, st)
     | None \<Rightarrow>
         (let (a, st') = alloc \<lparr>v_id = id', v_name = displayName fileName, v_url = url,
                                v_size = md_size metadata, uploadedAt = timeCreated metadata,
                                transcription = None, v_status = Completed\<rparr> st
          in (a, st'\<lparr>videos := AList.update id' a (videos st')\<rparr>)))"

definition resolve ::
  "storage \<Rightarrow> (string, nat) js_map \<Rightarrow> string \<Rightarrow> string \<Rightarrow> string \<Rightarrow> FullMetadata \<Rightarrow> state
     \<Rightarrow> nat \<times> state" where
  "resolve S metadataByUrl fileName id' url metadata st =
     priority4 fileName id' url metadata
       (priority3 id' url
         (priority2 S id' url metadata
           (priority1 metadataByUrl id' url metadata st)))"

text \<open>
  ``Add to map, preferring videos with transcriptions'': \<open>h\<close> is the store at that
  moment, read for the two \<^verbatim>\<open>transcription?.text\<close> tests.
\<close>

definition addToMap ::
  "string \<Rightarrow> nat \<Rightarrow> Video list \<Rightarrow> (string, nat) js_map \<Rightarrow> (string, nat) js_map" where
  "addToMap id' video h videoMap =
     (case map_of videoMap id' of
        Some existing \<Rightarrow>
          (if hasTranscriptionText (h ! video) \<and> \<not> hasTranscriptionText (h ! existing)
           then AList.update id' video videoMap
           else videoMap)
      | None \<Rightarrow> AList.update id' video videoMap)"

text \<open>
  The body of the second loop. \<^verbatim>\<open>getDownloadURL\<close> and \<^verbatim>\<open>getMetadata\<close> are the first
  two statements of the \<^verbatim>\<open>try\<close> block, so an item for which one of them throws is
  left before anything is written.
\<close>

definition processItem ::
  "storage \<Rightarrow> (string, nat) js_map \<Rightarrow> StorageItem \<Rightarrow> state \<times> (string, nat) js_map
     \<Rightarrow> state \<times> (string, nat) js_map" where
  "processItem S metadataByUrl itemRef = (\<lambda>(st, videoMap).
     case getDownloadURL itemRef of
       None \<Rightarrow> (st, videoMap)
     | Some url \<Rightarrow>
         (case getMetadata itemRef of
            None \<Rightarrow> (st, videoMap)
          | Some metadata \<Rightarrow>
              (let fileName = item_name itemRef;
                   id' = videoIdOf fileName (dateNow itemRef);
                   (video, st') = resolve S metadataByUrl fileName id' url metadata st
               in (st', addToMap id' video (heap st') videoMap))))"

text \<open>
  \<open>getTime\<close> stands for \<^verbatim>\<open>new Date(s).getTime()\<close>: the epoch milliseconds of a string
  that parses as a date, and \<open>None\<close> for \<^verbatim>\<open>NaN\<close>, the time value of a string that does
  not. The comparator
  \<^verbatim>\<open>(a, b) => new Date(b.uploadedAt).getTime() - new Date(a.uploadedAt).getTime()\<close>
  answers \<^verbatim>\<open>NaN\<close> as soon as one of the two dates does not parse.
\<close>

definition compareUploadedAt :: "(string \<Rightarrow> int option) \<Rightarrow> Video \<Rightarrow> Video \<Rightarrow> int option" where
  "compareUploadedAt getTime a b =
     (case getTime (uploadedAt b) of
        None \<Rightarrow> None
      | Some tb \<Rightarrow> (case getTime (uploadedAt a) of None \<Rightarrow> None | Some ta \<Rightarrow> Some (tb - ta)))"

text \<open>
  \<^verbatim>\<open>Array.prototype.sort(comparefn)\<close> as the engine of the server runtime (V8) computes
  it. An answer \<^verbatim>\<open>NaN\<close> of the comparator is read as \<open>+0\<close>, so it is not negative. The
  run at the start of the array is counted: it descends when the comparator puts the
  second element before the first, and goes on for as long as each element compares
  with its predecessor in the same way; a descending run is reversed. Every later
  element is then put in place by binary insertion.

  For a consistent comparator the result is the stable sort that the language
  prescribes. A comparator with \<^verbatim>\<open>NaN\<close> answers need not be consistent; the language
  leaves the order to the engine, and this is the order the engine gives. (From 64
  elements on the engine sorts the array run by run and merges the runs, which for a
  consistent comparator gives the same list; the merge is not modelled.)
\<close>

text \<open>\<^verbatim>\<open>order < 0\<close> for an answer of the comparator.\<close>

definition negative :: "int option \<Rightarrow> bool" where
  "negative order = (case order of None \<Rightarrow> False | Some d \<Rightarrow> d < 0)"

text \<open>The number of elements of \<open>xs\<close> that continue the run after \<open>previous\<close>.\<close>

fun countRun :: "('a \<Rightarrow> 'a \<Rightarrow> int option) \<Rightarrow> bool \<Rightarrow> 'a \<Rightarrow> 'a list \<Rightarrow> nat" where
  "countRun comparefn descending previous [] = 0"
| "countRun comparefn descending previous (x # xs) =
     (if negative (comparefn x previous) = descending
      then Suc (countRun comparefn descending x xs) else 0)"

text \<open>
  The place of \<open>pivot\<close> in the sorted part \<open>a\<close>, searched between \<open>left\<close> and \<open>right\<close>: the
  search goes left where the comparator puts the pivot before the middle element and
  right otherwise, so that the pivot comes after the elements it compares equal to.
\<close>

function binarySearch :: "('a \<Rightarrow> 'a \<Rightarrow> int option) \<Rightarrow> 'a \<Rightarrow> 'a list \<Rightarrow> nat \<Rightarrow> nat \<Rightarrow> nat" where
  "binarySearch comparefn pivot a left right =
     (if left < right
      then (if negative (comparefn pivot (a ! (left + (right - left) div 2)))
            then binarySearch comparefn pivot a left (left + (right - left) div 2)
            else binarySearch comparefn pivot a (left + (right - left) div 2 + 1) right)
      else left)"
  by pat_completeness auto
termination
  by (relation "measure (\<lambda>(comparefn, pivot, a, left, right). right - left)") auto

declare binarySearch.simps [simp del]

definition binaryInsert :: "('a \<Rightarrow> 'a \<Rightarrow> int option) \<Rightarrow> 'a \<Rightarrow> 'a list \<Rightarrow> 'a list" where
  "binaryInsert comparefn pivot a =
     take (binarySearch comparefn pivot a 0 (length a)) a
       @ pivot # drop (binarySearch comparefn pivot a 0 (length a)) a"

text \<open>Arrays of fewer than two elements are returned as they are.\<close>

fun js_sort :: "('a \<Rightarrow> 'a \<Rightarrow> int option) \<Rightarrow> 'a list \<Rightarrow> 'a list" where
  "js_sort comparefn (x # y # rest) =
     (if negative (comparefn y x)
      then fold (binaryInsert comparefn) (drop (countRun comparefn True y rest) rest)
             (rev (x # y # take (countRun comparefn True y rest) rest))
      else fold (binaryInsert comparefn) (drop (countRun comparefn False y rest) rest)
             (x # y # take (countRun comparefn False y rest) rest))"
| "js_sort comparefn xs = xs"

definition sortByUploadedAt :: "(string \<Rightarrow> int option) \<Rightarrow> Video list \<Rightarrow> Video list" where
  "sortByUploadedAt getTime vs = js_sort (compareUploadedAt getTime) vs"

text \<open>\<^verbatim>\<open>Array.from(m.values())\<close> for a map of references, read in store \<open>h\<close>.\<close>

definition valuesOf :: "Video list \<Rightarrow> (string, nat) js_map \<Rightarrow> Video list" where
  "valuesOf h m = map (\<lambda>(k, a). h ! a) m"

text \<open>The inner \<^verbatim>\<open>catch (storageError)\<close>: the memory-only list.\<close>

definition memoryFallback :: "(string \<Rightarrow> int option) \<Rightarrow> state \<Rightarrow> Video list response" where
  "memoryFallback getTime st =
     \<lparr>success = True, error = None,
      data = Some (sortByUploadedAt getTime (valuesOf (heap st) (videos st)))\<rparr>"

definition getVideos ::
  "(string \<Rightarrow> int option) \<Rightarrow> storage \<Rightarrow> state \<Rightarrow> Video list response \<times> state" where
  "getVideos getTime S st =
     (case storageHandle S of
        Some e \<Rightarrow>
          (\<lparr>success = False,
            error = Some (case e of ErrorObj message \<Rightarrow> message
                                  | OtherValue \<Rightarrow> ''Failed to fetch videos''),
            data = Some []\<rparr>, st)
      | None \<Rightarrow>
          (case metadataList S of
             None \<Rightarrow> (memoryFallback getTime st, st)
           | Some metaItems \<Rightarrow>
               (let (st1, metadataByUrl) = fold (loadMetadataItem S) metaItems (st, [])
                in (case videoList S of
                      None \<Rightarrow> (memoryFallback getTime st1, st1)
                    | Some items \<Rightarrow>
                        (let (st2, videoMap) = fold (processItem S metadataByUrl) items (st1, [])
                         in (\<lparr>success = True, error = None,
                              data = Some (sortByUploadedAt getTime (valuesOf (heap st2) videoMap))\<rparr>,
                             st2))))))"

section \<open>Notions used to state the properties\<close>

text \<open>
  An item of the video listing is processed when both of its storage calls answer; a
  listed metadata file is indexed when its document can be fetched.
\<close>

definition itemOk :: "StorageItem \<Rightarrow> bool" where
  "itemOk i = (getDownloadURL i \<noteq> None \<and> getMetadata i \<noteq> None)"



text \<open>
  What the loop body computes from an item: its id, its download URL and its storage
  metadata (the defaults stand for an item that is skipped and are never used for an
  item that is processed), and the part of its file name before the first underscore.
\<close>

definition itemId :: "StorageItem \<Rightarrow> string" where
  "itemId i = videoIdOf (item_name i) (dateNow i)"

definition urlOf :: "StorageItem \<Rightarrow> string" where
  "urlOf i = (case getDownloadURL i of Some url \<Rightarrow> url | None \<Rightarrow> [])"

definition metaOf :: "StorageItem \<Rightarrow> FullMetadata" where
  "metaOf i = (case getMetadata i of Some md \<Rightarrow> md | None \<Rightarrow> \<lparr>md_size = 0, timeCreated = []\<rparr>)"

definition itemPrefix :: "StorageItem \<Rightarrow> string" where
  "itemPrefix i = hd (js_split CHR ''_'' (item_name i))"

text \<open>
  The processed items of a listing have non-empty, pairwise distinct file name
  prefixes: no two of them get the same id, and none gets its id from the clock.
\<close>

definition distinctPrefixes :: "StorageItem list \<Rightarrow> bool" where
  "distinctPrefixes items =
     (distinct (map itemPrefix (filter itemOk items))
      \<and> [] \<notin> set (map itemPrefix (filter itemOk items)))"

text \<open>The same storage read at other moments: only the clock readings differ.\<close>

definition rereadClock :: "(StorageItem \<Rightarrow> string) \<Rightarrow> storage \<Rightarrow> storage" where
  "rereadClock clock S =
     S\<lparr>videoList := map_option (map (\<lambda>i. i\<lparr>dateNow := clock i\<rparr>)) (videoList S)\<rparr>"

text \<open>
  Record \<open>a\<close> was not uploaded before record \<open>b\<close>: both upload times parse and that of
  \<open>a\<close> is the later or the same.
\<close>

definition notEarlier :: "(string \<Rightarrow> int option) \<Rightarrow> Video \<Rightarrow> Video \<Rightarrow> bool" where
  "notEarlier getTime a b =
     (case getTime (uploadedAt a) of
        None \<Rightarrow> False
      | Some ta \<Rightarrow> (case getTime (uploadedAt b) of None \<Rightarrow> False | Some tb \<Rightarrow> tb \<le> ta))"


text \<open>
  The metadata loop in closed form. Started with the next free address \<open>b\<close>, it puts
  the documents that can be fetched on the heap in listing order (\<open>docsOf\<close>) and maps
  the canonical URL of each to its address (\<open>indexFrom\<close>).
\<close>

fun indexFrom :: "storage \<Rightarrow> nat \<Rightarrow> string list \<Rightarrow> (string, nat) js_map \<Rightarrow> (string, nat) js_map" where
  "indexFrom S b [] m = m"
| "indexFrom S b (n # ns) m =
     (case metadataFile S n of
        None \<Rightarrow> indexFrom S b ns m
      | Some d \<Rightarrow> indexFrom S (Suc b) ns (AList.update (cleanUrl (v_url d)) b m))"

definition docsOf :: "storage \<Rightarrow> string list \<Rightarrow> Video list" where
  "docsOf S ns = List.map_filter (metadataFile S) ns"

text \<open>
  What the four priorities decide for an item, given the metadata index \<open>m\<close> and the
  cache \<open>c\<close> as they are when the video loop starts: adopt the indexed object at an
  address, reuse the cached object at an address, or take a new object with the given
  content (the document \<^verbatim>\<open>{id}.json\<close> with url and size refreshed, or the synthesized
  record). When the processed items have pairwise distinct ids the decision does not
  depend on the items processed before, since an item only changes the cache entry of
  its own id.
\<close>

datatype plan = Adopt nat | Reuse nat | Fresh Video

definition planOf ::
  "storage \<Rightarrow> (string, nat) js_map \<Rightarrow> (string, nat) js_map \<Rightarrow> StorageItem \<Rightarrow> plan" where
  "planOf S m c j =
     (case map_of m (cleanUrl (urlOf j)) of
        Some a \<Rightarrow> Adopt a
      | None \<Rightarrow>
          (case metadataFile S (itemId j @ ''.json'') of
             Some d \<Rightarrow> Fresh (d\<lparr>v_url := urlOf j, v_size := md_size (metaOf j)\<rparr>)
           | None \<Rightarrow>
               (case map_of c (itemId j) of
                  Some x \<Rightarrow> Reuse x
                | None \<Rightarrow> Fresh \<lparr>v_id = itemId j, v_name = displayName (item_name j),
                                  v_url = urlOf j, v_size = md_size (metaOf j),
                                  uploadedAt = timeCreated (metaOf j),
                                  transcription = None, v_status = Completed\<rparr>)))"

text \<open>
  The assignments one item makes to the object at address \<open>x\<close>, and those of a whole
  listing in order. Objects are shared, so an object adopted or reused by several
  items receives the assignments of each of them.
\<close>

definition writeAt :: "plan \<Rightarrow> StorageItem \<Rightarrow> nat \<Rightarrow> Video \<Rightarrow> Video" where
  "writeAt p j x v =
     (case p of
        Adopt a \<Rightarrow>
          (if a = x then v\<lparr>v_id := itemId j, v_url := urlOf j, v_size := md_size (metaOf j)\<rparr> else v)
      | Reuse a \<Rightarrow> (if a = x then v\<lparr>v_url := urlOf j\<rparr> else v)
      | Fresh w \<Rightarrow> v)"

definition finalAt ::
  "storage \<Rightarrow> (string, nat) js_map \<Rightarrow> (string, nat) js_map \<Rightarrow> StorageItem list \<Rightarrow> nat \<Rightarrow> Video \<Rightarrow> Video" where
  "finalAt S m c items x v = fold (\<lambda>j. writeAt (planOf S m c j) j x) items v"

text \<open>
  \<open>placed p lo h a\<close>: address \<open>a\<close> is where the decision \<open>p\<close> puts the item's record. A
  new object lies at or above \<open>lo\<close> in the heap \<open>h\<close> and holds the decided content.
\<close>

definition placed :: "plan \<Rightarrow> nat \<Rightarrow> Video list \<Rightarrow> nat \<Rightarrow> bool" where
  "placed p lo h a =
     (case p of
        Adopt t \<Rightarrow> a = t
      | Reuse t \<Rightarrow> a = t
      | Fresh v \<Rightarrow> lo \<le> a \<and> a < length h \<and> h ! a = v)"

text \<open>The record of item \<open>j\<close> once the whole listing \<open>items\<close> has been processed.\<close>

definition valOf ::
  "storage \<Rightarrow> (string, nat) js_map \<Rightarrow> (string, nat) js_map \<Rightarrow> Video list \<Rightarrow> StorageItem list
     \<Rightarrow> StorageItem \<Rightarrow> Video" where
  "valOf S m c h items j =
     (case planOf S m c j of
        Adopt t \<Rightarrow> finalAt S m c items t (h ! t)
      | Reuse t \<Rightarrow> finalAt S m c items t (h ! t)
      | Fresh v \<Rightarrow> v)"

section \<open>Concrete data for the instances\<close>

text \<open>
  \<open>exTime\<close> gives the epoch milliseconds of the three timestamps the examples use. The
  only other string the examples sort by is \<^verbatim>\<open>not a date\<close>, which does not parse.
\<close>

definition exTime :: "string \<Rightarrow> int option" where
  "exTime s =
     (if s = ''2024-01-02T00:00:00.000Z'' then Some 1704153600000
      else if s = ''2024-01-01T00:00:00.000Z'' then Some 1704067200000
      else if s = ''2024-01-01T00:00:05.000Z'' then Some 1704067205000
      else None)"

definition exTranscription :: Transcription where
  "exTranscription =
     \<lparr>t_id = ''tr-1'', t_text = ''hello world'', t_status = TCompleted, words = None,
      utterances = None, completedAt = Some ''2024-01-02T00:05:00.000Z''\<rparr>"

definition videoA :: Video where
  "videoA =
     \<lparr>v_id = ''1704067200000'', v_name = ''a.mp4'',
      v_url = ''https://storage/videos/1704067200000_a.mp4?token=old'', v_size = 100,
      uploadedAt = ''2024-01-01T00:00:00.000Z'', transcription = None, v_status = Processing\<rparr>"

definition videoB :: Video where
  "videoB =
     \<lparr>v_id = ''1704153600000'', v_name = ''b.mp4'',
      v_url = ''https://storage/videos/1704153600000_b.mp4?token=old'', v_size = 200,
      uploadedAt = ''2024-01-02T00:00:00.000Z'', transcription = Some exTranscription,
      v_status = Completed\<rparr>"

definition exState :: state where
  "exState = \<lparr>heap = [videoA, videoB], videos = [(''1704067200000'', 0), (''1704153600000'', 1)]\<rparr>"

definition emptyState :: state where
  "emptyState = \<lparr>heap = [], videos = []\<rparr>"

text \<open>A storage whose metadata listing throws.\<close>

definition listingDown :: storage where
  "listingDown =
     \<lparr>storageHandle = None, metadataList = None, metadataFile = (\<lambda>n. None), videoList = Some []\<rparr>"

text \<open>
  A cache of three records, the second with an upload time that is not a date.
\<close>

definition undatedVideo :: Video where
  "undatedVideo =
     \<lparr>v_id = ''1704100000000'', v_name = ''u.mp4'',
      v_url = ''https://storage/videos/1704100000000_u.mp4?token=old'', v_size = 150,
      uploadedAt = ''not a date'', transcription = None, v_status = Completed\<rparr>"

definition undatedState :: state where
  "undatedState =
     \<lparr>heap = [videoA, undatedVideo, videoB],
      videos = [(''1704067200000'', 0), (''1704100000000'', 1), (''1704153600000'', 2)]\<rparr>"

text \<open>
  Two blobs that share the id prefix 1700000000000, listed with b first, and one
  metadata document (saved under its own, later id) whose url is that of blob a.
\<close>

definition holidayDoc :: Video where
  "holidayDoc =
     \<lparr>v_id = ''1700000005000'', v_name = ''holiday.mp4'',
      v_url = ''https://storage/videos/1700000000000_a.mp4?token=old'', v_size = 10,
      uploadedAt = ''2024-01-01T00:00:05.000Z'', transcription = None, v_status = Processing\<rparr>"

definition collidingStorage :: storage where
  "collidingStorage =
     \<lparr>storageHandle = None,
      metadataList = Some [''1700000005000.json''],
      metadataFile = map_of [(''1700000005000.json'', holidayDoc)],
      videoList = Some
        [\<lparr>item_name = ''1700000000000_b.mp4'',
          getDownloadURL = Some ''https://storage/videos/1700000000000_b.mp4?token=t2'',
          getMetadata = Some \<lparr>md_size = 20, timeCreated = ''2024-01-01T00:00:00.000Z''\<rparr>,
          dateNow = ''1700000009000''\<rparr>,
         \<lparr>item_name = ''1700000000000_a.mp4'',
          getDownloadURL = Some ''https://storage/videos/1700000000000_a.mp4?token=t1'',
          getMetadata = Some \<lparr>md_size = 10, timeCreated = ''2024-01-01T00:00:00.000Z''\<rparr>,
          dateNow = ''1700000009000''\<rparr>]\<rparr>"


text \<open>
  A storage with three blobs and two listed metadata files: the document of blob a is
  stored under a later id, \<^verbatim>\<open>broken.json\<close> cannot be fetched, and \<^verbatim>\<open>getMetadata\<close>
  throws for blob b.
\<close>

definition blobA :: StorageItem where
  "blobA =
     \<lparr>item_name = ''1704067200000_a.mp4'',
      getDownloadURL = Some ''https://storage/videos/1704067200000_a.mp4?token=t1'',
      getMetadata = Some \<lparr>md_size = 100, timeCreated = ''2024-01-01T00:00:00.000Z''\<rparr>,
      dateNow = ''1704240000000''\<rparr>"

definition blobB :: StorageItem where
  "blobB =
     \<lparr>item_name = ''1704153600000_b.mp4'',
      getDownloadURL = Some ''https://storage/videos/1704153600000_b.mp4?token=t2'',
      getMetadata = None,
      dateNow = ''1704240000001''\<rparr>"

definition blobC :: StorageItem where
  "blobC =
     \<lparr>item_name = ''1704153600001_c.mp4'',
      getDownloadURL = Some ''https://storage/videos/1704153600001_c.mp4?token=t3'',
      getMetadata = Some \<lparr>md_size = 300, timeCreated = ''2024-01-02T00:00:00.000Z''\<rparr>,
      dateNow = ''1704240000002''\<rparr>"

definition exStorage :: storage where
  "exStorage =
     \<lparr>storageHandle = None,
      metadataList = Some [''1704067200500.json'', ''broken.json''],
      metadataFile = map_of [(''1704067200500.json'', videoA)],
      videoList = Some [blobA, blobB, blobC]\<rparr>"

section \<open>Properties of validateFile\<close>

lemma typeRejection_neq_sizeRejection: "typeRejection \<noteq> sizeRejection"
  by (simp add: typeRejection_def sizeRejection_def)

lemma validateFile_size_rule:
  "f_type file \<in> set allowedTypes \<Longrightarrow>
     validateFile file = (if f_size file > 262144000 then Some sizeRejection else None)"
  by (simp add: validateFile_def maxSize_def)

text \<open>
  C1. The claim asks for a rejection of every size at or above 250*1024*1024 bytes.
  At exactly 250*1024*1024 bytes, with an allowed MIME type, \<^verbatim>\<open>validateFile\<close>
  returns \<^verbatim>\<open>null\<close>: the comparison is \<^verbatim>\<open>file.size > maxSize\<close>, while its own message
  says the size must be less than 250MB.
\<close>

theorem validateFile_accepts_exact_limit:
  "validateFile \<lparr>f_name = ''clip.mp4'', f_type = ''video/mp4'', f_size = 250 * 1024 * 1024\<rparr> = None"
  by (simp add: validateFile_def maxSize_def allowedTypes_def)

text \<open>
  C8. \<^verbatim>\<open>validateFile\<close> returns the type rejection exactly when the declared MIME
  type is not one of video/mp4, video/webm, video/ogg, video/quicktime; for those
  four types the result is never the type rejection.
\<close>

theorem validateFile_type_allow_list:
  "(validateFile file = Some typeRejection) =
     (f_type file \<notin> {''video/mp4'', ''video/webm'', ''video/ogg'', ''video/quicktime''})"
  using typeRejection_neq_sizeRejection
  by (auto simp add: validateFile_def allowedTypes_def)

theorem validateFile_type_allow_list_witness:
  "validateFile \<lparr>f_name = ''a.avi'', f_type = ''video/x-msvideo'', f_size = 10\<rparr> = Some typeRejection
   \<and> validateFile \<lparr>f_name = ''a.mov'', f_type = ''video/quicktime'', f_size = 10\<rparr> \<noteq> Some typeRejection"
  using validateFile_type_allow_list [of "\<lparr>f_name = ''a.avi'', f_type = ''video/x-msvideo'', f_size = 10\<rparr>"]
    validateFile_type_allow_list [of "\<lparr>f_name = ''a.mov'', f_type = ''video/quicktime'', f_size = 10\<rparr>"]
  by simp

section \<open>Strings\<close>

lemma js_split_nonempty: "js_split c s \<noteq> []"
  by (induction s) (auto split: list.splits)

lemma hd_js_split: "hd (js_split c s) = takeWhile (\<lambda>x. x \<noteq> c) s"
  by (induction s) (auto split: list.splits simp: js_split_nonempty)

lemma takeWhile_upto_first:
  "c \<notin> set p \<Longrightarrow> takeWhile (\<lambda>x. x \<noteq> c) (p @ c # rest) = p"
  by (induction p) auto

lemma videoIdOf_takeWhile:
  "videoIdOf fileName now =
     (if takeWhile (\<lambda>x. x \<noteq> CHR ''_'') fileName = [] then now
      else takeWhile (\<lambda>x. x \<noteq> CHR ''_'') fileName)"
  by (simp add: videoIdOf_def or_else_def hd_js_split)

text \<open>
  C6 (as amended). The id of a blob is the part of its file name before the first
  underscore; a file name without an underscore is its own id. The current time is
  used only when that part is empty, that is, when the file name is empty or starts
  with an underscore.
\<close>

theorem videoIdOf_prefix_or_now:
  "(fileName = p @ CHR ''_'' # rest \<and> CHR ''_'' \<notin> set p \<and> p \<noteq> [] \<longrightarrow> videoIdOf fileName now = p)
   \<and> (CHR ''_'' \<notin> set fileName \<and> fileName \<noteq> [] \<longrightarrow> videoIdOf fileName now = fileName)
   \<and> (fileName = [] \<or> hd fileName = CHR ''_'' \<longrightarrow> videoIdOf fileName now = now)"
proof (intro conjI impI)
  assume h: "fileName = p @ CHR ''_'' # rest \<and> CHR ''_'' \<notin> set p \<and> p \<noteq> []"
  then have tw: "takeWhile (\<lambda>x. x \<noteq> CHR ''_'') fileName = p"
    by (simp add: takeWhile_upto_first)
  show "videoIdOf fileName now = p"
    unfolding videoIdOf_takeWhile tw using h by simp
next
  assume h: "CHR ''_'' \<notin> set fileName \<and> fileName \<noteq> []"
  then have "\<forall>x \<in> set fileName. x \<noteq> CHR ''_''"
    by auto
  then have tw: "takeWhile (\<lambda>x. x \<noteq> CHR ''_'') fileName = fileName"
    by (simp only: takeWhile_eq_all_conv)
  show "videoIdOf fileName now = fileName"
    unfolding videoIdOf_takeWhile tw using h by simp
next
  assume "fileName = [] \<or> hd fileName = CHR ''_''"
  then have tw: "takeWhile (\<lambda>x. x \<noteq> CHR ''_'') fileName = []"
    by (cases fileName) auto
  show "videoIdOf fileName now = now"
    unfolding videoIdOf_takeWhile tw by simp
qed

theorem videoIdOf_prefix_or_now_witness:
  "videoIdOf ''1700000000000_clip.mp4'' ''1700000009000'' = ''1700000000000''
   \<and> videoIdOf ''clip.mp4'' ''1700000009000'' = ''clip.mp4''
   \<and> videoIdOf ''_clip.mp4'' ''1700000009000'' = ''1700000009000''"
  using videoIdOf_prefix_or_now [of "''1700000000000_clip.mp4''" "''1700000000000''" "''clip.mp4''" "''1700000009000''"]
    videoIdOf_prefix_or_now [of "''clip.mp4''" "[]" "[]" "''1700000009000''"]
    videoIdOf_prefix_or_now [of "''_clip.mp4''" "[]" "[]" "''1700000009000''"]
  by simp

text \<open>
  C6 as stated fails: \<^verbatim>\<open>clip.mp4\<close> contains no underscore, and its id is the file
  name, not the clock reading.
\<close>

theorem videoIdOf_no_underscore_counterexample:
  "CHR ''_'' \<notin> set ''clip.mp4'' \<and> videoIdOf ''clip.mp4'' ''1700000009000'' \<noteq> ''1700000009000''"
  by (simp add: videoIdOf_def or_else_def)

section \<open>The in-memory map\<close>

text \<open>
  C9. For an id that the map does not hold, \<^verbatim>\<open>updateVideoStatus\<close> returns
  \<^verbatim>\<open>{ success: false, error: 'Video not found' }\<close> and the state it leaves is the state
  it found; \<^verbatim>\<open>getVideoById\<close> returns the same error object.
\<close>

theorem updateVideoStatus_not_found:
  "map_of (videos st) videoId = None \<Longrightarrow>
     updateVideoStatus videoId status tr st =
       (\<lparr>success = False, error = Some ''Video not found'', data = None\<rparr>, st)
     \<and> getVideoById videoId st = \<lparr>success = False, error = Some ''Video not found'', data = None\<rparr>"
  by (simp add: updateVideoStatus_def getVideoById_def)

theorem updateVideoStatus_not_found_witness:
  "map_of (videos exState) ''1704000000000'' = None
   \<and> updateVideoStatus ''1704000000000'' Completed (Some exTranscription) exState =
       (\<lparr>success = False, error = Some ''Video not found'', data = None\<rparr>, exState)
   \<and> getVideoById ''1704000000000'' exState =
       \<lparr>success = False, error = Some ''Video not found'', data = None\<rparr>"
proof -
  have h: "map_of (videos exState) ''1704000000000'' = None"
    by (simp add: exState_def)
  from updateVideoStatus_not_found [OF h, of Completed "Some exTranscription"] h
  show ?thesis
    by simp
qed

text \<open>
  C5 (as amended). \<^verbatim>\<open>updateVideoStatus\<close> has no guard on the current status: for a
  record that the map holds it stores the requested status, whatever the record's
  status was, so the status stays as it is exactly when the requested status equals it.
\<close>

theorem updateVideoStatus_overwrites_status:
  "map_of (videos st) videoId = Some a \<Longrightarrow> a < length (heap st) \<Longrightarrow>
     v_status (heap (snd (updateVideoStatus videoId status tr st)) ! a) = status
     \<and> (v_status (heap (snd (updateVideoStatus videoId status tr st)) ! a) = v_status (heap st ! a))
         = (status = v_status (heap st ! a))
     \<and> success (fst (updateVideoStatus videoId status tr st))
     \<and> map_option v_status (data (fst (updateVideoStatus videoId status tr st))) = Some status"
  by (auto simp add: updateVideoStatus_def Let_def update_conv' split: option.splits)

theorem updateVideoStatus_overwrites_status_witness:
  "map_of (videos exState) ''1704067200000'' = Some 0 \<and> 0 < length (heap exState)
   \<and> v_status (heap exState ! 0) = Processing
   \<and> v_status (heap (snd (updateVideoStatus ''1704067200000'' Completed (Some exTranscription) exState)) ! 0)
       = Completed"
proof -
  have h: "map_of (videos exState) ''1704067200000'' = Some 0" "0 < length (heap exState)"
    by (simp_all add: exState_def)
  have "v_status (heap exState ! 0) = Processing"
    by (simp add: exState_def videoA_def)
  with updateVideoStatus_overwrites_status [OF h, of Completed "Some exTranscription"] h
  show ?thesis
    by simp
qed

text \<open>
  C5 as stated fails: the record 1704153600000 is \<^verbatim>\<open>completed\<close>, and a status update
  to \<^verbatim>\<open>processing\<close> changes it.
\<close>

theorem updateVideoStatus_leaves_completed_counterexample:
  "map_of (videos exState) ''1704153600000'' = Some 1
   \<and> v_status (heap exState ! 1) = Completed
   \<and> v_status (heap (snd (updateVideoStatus ''1704153600000'' Processing None exState)) ! 1)
       = Processing"
  by (simp add: updateVideoStatus_def Let_def exState_def videoA_def videoB_def)

section \<open>Resolution and merge\<close>

lemma resolve_cases:
  "resolve S m fileName k url md st =
     (case map_of m (cleanUrl url) of
        Some a \<Rightarrow>
          (a, st\<lparr>heap := (heap st)[a := (heap st ! a)\<lparr>v_id := k, v_url := url, v_size := md_size md\<rparr>],
                 videos := AList.update k a (videos st)\<rparr>)
      | None \<Rightarrow>
          (case metadataFile S (k @ ''.json'') of
             Some d \<Rightarrow>
               (length (heap st),
                st\<lparr>heap := heap st @ [d\<lparr>v_url := url, v_size := md_size md\<rparr>],
                   videos := AList.update k (length (heap st)) (videos st)\<rparr>)
           | None \<Rightarrow>
               (case map_of (videos st) k of
                  Some c \<Rightarrow> (c, st\<lparr>heap := (heap st)[c := (heap st ! c)\<lparr>v_url := url\<rparr>]\<rparr>)
                | None \<Rightarrow>
                    (length (heap st),
                     st\<lparr>heap := heap st @ [\<lparr>v_id = k, v_name = displayName fileName, v_url = url,
                                            v_size = md_size md, uploadedAt = timeCreated md,
                                            transcription = None, v_status = Completed\<rparr>],
                        videos := AList.update k (length (heap st)) (videos st)\<rparr>))))"
  by (simp add: resolve_def priority1_def priority2_def priority3_def priority4_def
      loadVideoDataFromStorage_def alloc_def split: option.splits)

text \<open>
  C3. \<^verbatim>\<open>resolve\<close> is the body's four priorities in sequence. It adopts (a) the object
  the metadata index holds for the blob's canonical URL, refreshing id, url and size;
  failing that (b) the document \<^verbatim>\<open>metadata/{id}.json\<close>, refreshing url and size;
  failing that (c) the cached object for the id, refreshing the url; failing that (d) a
  new record built from the blob. In particular a URL match wins over a different
  cached record for the same id.
\<close>

theorem resolve_priority_order:
  "(map_of metadataByUrl (cleanUrl url) = Some a \<longrightarrow>
      resolve S metadataByUrl fileName id' url metadata st =
        (a, st\<lparr>heap := (heap st)[a := (heap st ! a)\<lparr>v_id := id', v_url := url, v_size := md_size metadata\<rparr>],
               videos := AList.update id' a (videos st)\<rparr>))
   \<and> (map_of metadataByUrl (cleanUrl url) = None \<and> metadataFile S (id' @ ''.json'') = Some doc \<longrightarrow>
      resolve S metadataByUrl fileName id' url metadata st =
        (length (heap st),
         st\<lparr>heap := heap st @ [doc\<lparr>v_url := url, v_size := md_size metadata\<rparr>],
            videos := AList.update id' (length (heap st)) (videos st)\<rparr>))
   \<and> (map_of metadataByUrl (cleanUrl url) = None \<and> metadataFile S (id' @ ''.json'') = None
        \<and> map_of (videos st) id' = Some c \<longrightarrow>
      resolve S metadataByUrl fileName id' url metadata st =
        (c, st\<lparr>heap := (heap st)[c := (heap st ! c)\<lparr>v_url := url\<rparr>]\<rparr>))
   \<and> (map_of metadataByUrl (cleanUrl url) = None \<and> metadataFile S (id' @ ''.json'') = None
        \<and> map_of (videos st) id' = None \<longrightarrow>
      resolve S metadataByUrl fileName id' url metadata st =
        (length (heap st),
         st\<lparr>heap := heap st @ [\<lparr>v_id = id', v_name = displayName fileName, v_url = url,
                                v_size = md_size metadata, uploadedAt = timeCreated metadata,
                                transcription = None, v_status = Completed\<rparr>],
            videos := AList.update id' (length (heap st)) (videos st)\<rparr>))
   \<and> (map_of metadataByUrl (cleanUrl url) = Some a \<and> map_of (videos st) id' = Some c \<and> c \<noteq> a
        \<and> a < length (heap st) \<longrightarrow>
      fst (resolve S metadataByUrl fileName id' url metadata st) = a
      \<and> heap (snd (resolve S metadataByUrl fileName id' url metadata st)) ! a =
          (heap st ! a)\<lparr>v_id := id', v_url := url, v_size := md_size metadata\<rparr>)"
  by (simp add: resolve_cases)

theorem resolve_priority_order_witness:
  "map_of [(''https://storage/videos/1704153600000_b.mp4'', 2::nat)]
       (cleanUrl ''https://storage/videos/1704153600000_b.mp4?token=t2'') = Some 2
   \<and> map_of (videos (exState\<lparr>heap := [videoA, videoB, holidayDoc]\<rparr>)) ''1704153600000'' = Some 1
   \<and> (1::nat) \<noteq> 2 \<and> 2 < length (heap (exState\<lparr>heap := [videoA, videoB, holidayDoc]\<rparr>))
   \<and> fst (resolve exStorage [(''https://storage/videos/1704153600000_b.mp4'', 2)]
             ''1704153600000_b.mp4'' ''1704153600000''
             ''https://storage/videos/1704153600000_b.mp4?token=t2''
             \<lparr>md_size = 200, timeCreated = ''2024-01-02T00:00:00.000Z''\<rparr>
             (exState\<lparr>heap := [videoA, videoB, holidayDoc]\<rparr>)) = 2
   \<and> heap (snd (resolve exStorage [(''https://storage/videos/1704153600000_b.mp4'', 2)]
             ''1704153600000_b.mp4'' ''1704153600000''
             ''https://storage/videos/1704153600000_b.mp4?token=t2''
             \<lparr>md_size = 200, timeCreated = ''2024-01-02T00:00:00.000Z''\<rparr>
             (exState\<lparr>heap := [videoA, videoB, holidayDoc]\<rparr>))) ! 2 =
       holidayDoc\<lparr>v_id := ''1704153600000'',
                  v_url := ''https://storage/videos/1704153600000_b.mp4?token=t2'',
                  v_size := 200\<rparr>
   \<and> fst (resolve exStorage [] ''1704153600000_b.mp4'' ''1704153600000''
             ''https://storage/videos/1704153600000_b.mp4?token=t2''
             \<lparr>md_size = 200, timeCreated = ''2024-01-02T00:00:00.000Z''\<rparr> exState) = 1
   \<and> fst (resolve exStorage [] ''1704067200500_x.mp4'' ''1704067200500''
             ''https://storage/videos/1704067200500_x.mp4?token=t4''
             \<lparr>md_size = 50, timeCreated = ''2024-01-01T00:00:05.000Z''\<rparr> exState) = 2
   \<and> fst (resolve exStorage [] ''1704153600001_c.mp4'' ''1704153600001''
             ''https://storage/videos/1704153600001_c.mp4?token=t3''
             \<lparr>md_size = 300, timeCreated = ''2024-01-02T00:00:00.000Z''\<rparr> exState) = 2"
proof -
  let ?st = "exState\<lparr>heap := [videoA, videoB, holidayDoc]\<rparr>"
  let ?m = "[(''https://storage/videos/1704153600000_b.mp4'', 2::nat)]"
  let ?md = "\<lparr>md_size = 200, timeCreated = ''2024-01-02T00:00:00.000Z''\<rparr>"
  have u: "cleanUrl ''https://storage/videos/1704153600000_b.mp4?token=t2''
         = ''https://storage/videos/1704153600000_b.mp4''"
    by (simp add: cleanUrl_def)
  have a: "map_of ?m (cleanUrl ''https://storage/videos/1704153600000_b.mp4?token=t2'') = Some 2"
    unfolding u by simp
  have c: "map_of (videos ?st) ''1704153600000'' = Some 1" "2 < length (heap ?st)"
    by (simp_all add: exState_def)
  have h2: "heap ?st ! 2 = holidayDoc"
    by simp
  have ne: "(1::nat) \<noteq> 2"
    by simp
  have n: "map_of ([] :: (string, nat) js_map) u' = None" for u'
    by simp
  have fb: "metadataFile exStorage (''1704153600000'' @ ''.json'') = None"
    "map_of (videos exState) ''1704153600000'' = Some 1"
    by (simp_all add: exStorage_def exState_def)
  have fx: "metadataFile exStorage (''1704067200500'' @ ''.json'') = Some videoA"
    by (simp add: exStorage_def)
  have fc: "metadataFile exStorage (''1704153600001'' @ ''.json'') = None"
    "map_of (videos exState) ''1704153600001'' = None"
    by (simp_all add: exStorage_def exState_def)
  have len: "length (heap exState) = 2"
    by (simp add: exState_def)
  have p5: "fst (resolve exStorage ?m ''1704153600000_b.mp4'' ''1704153600000''
             ''https://storage/videos/1704153600000_b.mp4?token=t2'' ?md ?st) = 2
     \<and> heap (snd (resolve exStorage ?m ''1704153600000_b.mp4'' ''1704153600000''
             ''https://storage/videos/1704153600000_b.mp4?token=t2'' ?md ?st)) ! 2 =
       (heap ?st ! 2)\<lparr>v_id := ''1704153600000'',
                  v_url := ''https://storage/videos/1704153600000_b.mp4?token=t2'',
                  v_size := md_size ?md\<rparr>"
    using resolve_priority_order [of ?m "''https://storage/videos/1704153600000_b.mp4?token=t2''" 2
      exStorage "''1704153600000_b.mp4''" "''1704153600000''" ?md ?st videoA 1] a c ne
    by blast
  have pc: "fst (resolve exStorage [] ''1704153600000_b.mp4'' ''1704153600000''
             ''https://storage/videos/1704153600000_b.mp4?token=t2'' ?md exState) = 1"
    using resolve_priority_order [of "[]" "''https://storage/videos/1704153600000_b.mp4?token=t2''" 0
      exStorage "''1704153600000_b.mp4''" "''1704153600000''" ?md exState videoA 1] n fb
    by simp
  have pb: "fst (resolve exStorage [] ''1704067200500_x.mp4'' ''1704067200500''
             ''https://storage/videos/1704067200500_x.mp4?token=t4''
             \<lparr>md_size = 50, timeCreated = ''2024-01-01T00:00:05.000Z''\<rparr> exState) = 2"
    using resolve_priority_order [of "[]" "''https://storage/videos/1704067200500_x.mp4?token=t4''" 0
      exStorage "''1704067200500_x.mp4''" "''1704067200500''"
      "\<lparr>md_size = 50, timeCreated = ''2024-01-01T00:00:05.000Z''\<rparr>" exState videoA 1] n fx len
    by simp
  have pd: "fst (resolve exStorage [] ''1704153600001_c.mp4'' ''1704153600001''
             ''https://storage/videos/1704153600001_c.mp4?token=t3''
             \<lparr>md_size = 300, timeCreated = ''2024-01-02T00:00:00.000Z''\<rparr> exState) = 2"
    using resolve_priority_order [of "[]" "''https://storage/videos/1704153600001_c.mp4?token=t3''" 0
      exStorage "''1704153600001_c.mp4''" "''1704153600001''"
      "\<lparr>md_size = 300, timeCreated = ''2024-01-02T00:00:00.000Z''\<rparr>" exState videoA 1] n fc len
    by simp
  from p5 have p5': "fst (resolve exStorage ?m ''1704153600000_b.mp4'' ''1704153600000''
             ''https://storage/videos/1704153600000_b.mp4?token=t2'' ?md ?st) = 2"
    "heap (snd (resolve exStorage ?m ''1704153600000_b.mp4'' ''1704153600000''
             ''https://storage/videos/1704153600000_b.mp4?token=t2'' ?md ?st)) ! 2 =
       holidayDoc\<lparr>v_id := ''1704153600000'',
                  v_url := ''https://storage/videos/1704153600000_b.mp4?token=t2'',
                  v_size := 200\<rparr>"
    unfolding h2 by simp_all
  show ?thesis
    using u c p5' pc pb pd by (intro conjI) simp_all
qed

text \<open>
  C4. When \<^verbatim>\<open>addToMap\<close> meets an id the result map already holds, the incoming record
  replaces the held one if it has transcript text and the held one has none;
  otherwise the held one stays. Hence of two candidates for a new id, exactly one of
  them with transcript text, the map ends with that one, in either order.
\<close>

theorem addToMap_prefers_transcription:
  "(map_of videoMap id' = Some existing \<longrightarrow>
      map_of (addToMap id' video h videoMap) id' =
        Some (if hasTranscriptionText (h ! video) \<and> \<not> hasTranscriptionText (h ! existing)
              then video else existing))
   \<and> (map_of videoMap id' = None \<longrightarrow> map_of (addToMap id' video h videoMap) id' = Some video)
   \<and> (map_of videoMap id' = None \<and> hasTranscriptionText (h ! v1) \<noteq> hasTranscriptionText (h ! v2) \<longrightarrow>
        map_of (addToMap id' v2 h (addToMap id' v1 h videoMap)) id' =
          Some (if hasTranscriptionText (h ! v1) then v1 else v2)
        \<and> map_of (addToMap id' v1 h (addToMap id' v2 h videoMap)) id' =
          Some (if hasTranscriptionText (h ! v1) then v1 else v2))"
  by (auto simp add: addToMap_def update_conv')

theorem addToMap_prefers_transcription_witness:
  "map_of ([] :: (string, nat) js_map) ''1704153600000'' = None
   \<and> hasTranscriptionText ([videoA, videoB] ! 0) \<noteq> hasTranscriptionText ([videoA, videoB] ! 1)
   \<and> map_of (addToMap ''1704153600000'' 1 [videoA, videoB]
                (addToMap ''1704153600000'' 0 [videoA, videoB] [])) ''1704153600000'' = Some 1
   \<and> map_of (addToMap ''1704153600000'' 0 [videoA, videoB]
                (addToMap ''1704153600000'' 1 [videoA, videoB] [])) ''1704153600000'' = Some 1"
proof -
  have h: "hasTranscriptionText ([videoA, videoB] ! 0) = False"
    "hasTranscriptionText ([videoA, videoB] ! 1) = True"
    by (simp_all add: hasTranscriptionText_def videoA_def videoB_def exTranscription_def)
  from addToMap_prefers_transcription
    [of "[]" "''1704153600000''" 0 0 "[videoA, videoB]" 0 1] h
  show ?thesis
    by simp
qed

section \<open>Sorting by upload time\<close>

lemma mset_binaryInsert: "mset (binaryInsert comparefn pivot a) = add_mset pivot (mset a)"
proof -
  have "mset (take n a) + mset (drop n a) = mset a" for n
    by (metis append_take_drop_id mset_append)
  then show ?thesis
    by (simp add: binaryInsert_def)
qed

lemma mset_fold_binaryInsert:
  "mset (fold (binaryInsert comparefn) xs acc) = mset xs + mset acc"
  by (induction xs arbitrary: acc) (simp_all add: mset_binaryInsert)

lemma mset_js_sort: "mset (js_sort comparefn xs) = mset xs"
proof (cases "(comparefn, xs)" rule: js_sort.cases)
  case (1 c x y rest)
  have "mset (take n rest) + mset (drop n rest) = mset rest" for n
    by (metis append_take_drop_id mset_append)
  with 1 show ?thesis
    by (simp add: mset_fold_binaryInsert ac_simps)
qed simp_all

lemma countRun_ascending:
  fixes k :: "'a \<Rightarrow> int"
  assumes "\<And>a b. a \<in> U \<Longrightarrow> b \<in> U \<Longrightarrow> negative (comparefn a b) = (k b < k a)"
    and "set (p # xs) \<subseteq> U"
  shows "sorted_wrt (\<lambda>a b. k b \<le> k a) (p # take (countRun comparefn False p xs) xs)"
  using assms(2)
proof (induction xs arbitrary: p)
  case Nil
  then show ?case by simp
next
  case (Cons x xs)
  have tr: "transp (\<lambda>a b. k b \<le> (k a :: int))"
    by (rule transpI) simp
  from Cons.prems have n: "negative (comparefn x p) = (k p < k x)"
    by (intro assms(1)) simp_all
  from Cons.prems have ih: "sorted_wrt (\<lambda>a b. k b \<le> k a) (x # take (countRun comparefn False x xs) xs)"
    by (intro Cons.IH) simp
  show ?case
  proof (cases "k p < k x")
    case True
    with n show ?thesis by simp
  next
    case False
    with n ih show ?thesis
      by (simp add: sorted_wrt2 [OF tr] del: sorted_wrt.simps)
  qed
qed

lemma countRun_descending:
  fixes k :: "'a \<Rightarrow> int"
  assumes "\<And>a b. a \<in> U \<Longrightarrow> b \<in> U \<Longrightarrow> negative (comparefn a b) = (k b < k a)"
    and "set (p # xs) \<subseteq> U"
  shows "sorted_wrt (\<lambda>a b. k a < k b) (p # take (countRun comparefn True p xs) xs)"
  using assms(2)
proof (induction xs arbitrary: p)
  case Nil
  then show ?case by simp
next
  case (Cons x xs)
  have tr: "transp (\<lambda>a b. k a < (k b :: int))"
    by (rule transpI) simp
  from Cons.prems have n: "negative (comparefn x p) = (k p < k x)"
    by (intro assms(1)) simp_all
  from Cons.prems have ih: "sorted_wrt (\<lambda>a b. k a < k b) (x # take (countRun comparefn True x xs) xs)"
    by (intro Cons.IH) simp
  show ?case
  proof (cases "k p < k x")
    case True
    with n ih show ?thesis
      by (simp add: sorted_wrt2 [OF tr] del: sorted_wrt.simps)
  next
    case False
    with n show ?thesis by simp
  qed
qed

lemma binarySearch_position:
  fixes k :: "'a \<Rightarrow> int"
  shows "(\<And>x y. x \<in> U \<Longrightarrow> y \<in> U \<Longrightarrow> negative (comparefn x y) = (k y < k x))
     \<Longrightarrow> set a \<subseteq> U \<Longrightarrow> pivot \<in> U
     \<Longrightarrow> sorted_wrt (\<lambda>x y. k y \<le> k x) a
     \<Longrightarrow> left \<le> right \<Longrightarrow> right \<le> length a
     \<Longrightarrow> \<forall>i < left. k pivot \<le> k (a ! i)
     \<Longrightarrow> \<forall>i. right \<le> i \<and> i < length a \<longrightarrow> k (a ! i) < k pivot
     \<Longrightarrow> binarySearch comparefn pivot a left right \<le> length a
         \<and> (\<forall>i < binarySearch comparefn pivot a left right. k pivot \<le> k (a ! i))
         \<and> (\<forall>i. binarySearch comparefn pivot a left right \<le> i \<and> i < length a
                \<longrightarrow> k (a ! i) < k pivot)"
proof (induction comparefn pivot a left right rule: binarySearch.induct)
  case (1 comparefn pivot a left right)
  note neg = "1.prems"(1) and U = "1.prems"(2,3) and srt = "1.prems"(4)
    and lr = "1.prems"(5) and rl = "1.prems"(6) and lo = "1.prems"(7) and hi = "1.prems"(8)
  let ?mid = "left + (right - left) div 2"
  show ?case
  proof (cases "left < right")
    case False
    then have bs: "binarySearch comparefn pivot a left right = left"
      by (simp add: binarySearch.simps [of comparefn pivot a left right])
    from False lr have "left = right" by simp
    with lo hi rl show ?thesis
      unfolding bs by simp
  next
    case True
    then have mid: "left \<le> ?mid" "?mid < right"
      by simp_all
    with rl have ml: "?mid < length a"
      by simp
    then have "a ! ?mid \<in> U"
      using U(1) by (meson nth_mem subsetD)
    with U(2) have n: "negative (comparefn pivot (a ! ?mid)) = (k (a ! ?mid) < k pivot)"
      by (intro neg)
    have ordered: "k (a ! j) \<le> k (a ! i)" if "i \<le> j" "j < length a" for i j
    proof (cases "i = j")
      case True
      then show ?thesis by simp
    next
      case False
      with that srt show ?thesis
        by (simp add: sorted_wrt_iff_nth_less)
    qed
    show ?thesis
    proof (cases "k (a ! ?mid) < k pivot")
      case lt: True
      have hi': "\<forall>i. ?mid \<le> i \<and> i < length a \<longrightarrow> k (a ! i) < k pivot"
      proof (intro allI impI)
        fix i
        assume "?mid \<le> i \<and> i < length a"
        then have "k (a ! i) \<le> k (a ! ?mid)"
          by (intro ordered) simp_all
        with lt show "k (a ! i) < k pivot"
          by simp
      qed
      from mid rl have "?mid \<le> length a"
        by simp
      from "1.IH"(1) [OF True _ neg U srt mid(1) this lo hi'] n lt
      have "binarySearch comparefn pivot a left ?mid \<le> length a
         \<and> (\<forall>i < binarySearch comparefn pivot a left ?mid. k pivot \<le> k (a ! i))
         \<and> (\<forall>i. binarySearch comparefn pivot a left ?mid \<le> i \<and> i < length a
                \<longrightarrow> k (a ! i) < k pivot)"
        by simp
      with True n lt show ?thesis
        by (simp add: binarySearch.simps [of comparefn pivot a left right])
    next
      case ge: False
      have lo': "\<forall>i < ?mid + 1. k pivot \<le> k (a ! i)"
      proof (intro allI impI)
        fix i
        assume "i < ?mid + 1"
        then have "k (a ! ?mid) \<le> k (a ! i)"
          using ml by (intro ordered) simp_all
        with ge show "k pivot \<le> k (a ! i)"
          by simp
      qed
      from mid have "?mid + 1 \<le> right"
        by simp
      from "1.IH"(2) [OF True _ neg U srt this rl lo' hi] n ge
      have "binarySearch comparefn pivot a (?mid + 1) right \<le> length a
         \<and> (\<forall>i < binarySearch comparefn pivot a (?mid + 1) right. k pivot \<le> k (a ! i))
         \<and> (\<forall>i. binarySearch comparefn pivot a (?mid + 1) right \<le> i \<and> i < length a
                \<longrightarrow> k (a ! i) < k pivot)"
        by simp
      with True n ge show ?thesis
        by (simp add: binarySearch.simps [of comparefn pivot a left right])
    qed
  qed
qed

lemma binaryInsert_sorted:
  fixes k :: "'a \<Rightarrow> int"
  assumes neg: "\<And>a b. a \<in> U \<Longrightarrow> b \<in> U \<Longrightarrow> negative (comparefn a b) = (k b < k a)"
    and U: "set a \<subseteq> U" "pivot \<in> U"
    and srt: "sorted_wrt (\<lambda>x y. k y \<le> k x) a"
  shows "sorted_wrt (\<lambda>x y. k y \<le> k x) (binaryInsert comparefn pivot a)"
proof -
  let ?l = "binarySearch comparefn pivot a 0 (length a)"
  have "\<forall>i. length a \<le> i \<and> i < length a \<longrightarrow> k (a ! i) < k pivot"
    by auto
  with binarySearch_position [where U = U and k = k and comparefn = comparefn and a = a
      and pivot = pivot and left = 0 and right = "length a", OF neg U srt]
  have l: "?l \<le> length a" and lo: "\<forall>i < ?l. k pivot \<le> k (a ! i)"
    and hi: "\<forall>i. ?l \<le> i \<and> i < length a \<longrightarrow> k (a ! i) < k pivot"
    by simp_all
  have before: "k pivot \<le> k x" if "x \<in> set (take ?l a)" for x
  proof -
    from that obtain i where "i < length (take ?l a)" "take ?l a ! i = x"
      by (auto simp add: in_set_conv_nth)
    with lo show ?thesis
      by auto
  qed
  have after: "k y < k pivot" if "y \<in> set (drop ?l a)" for y
  proof -
    from that obtain i where i: "i < length (drop ?l a)" "drop ?l a ! i = y"
      by (auto simp add: in_set_conv_nth)
    with l have "?l + i < length a" "a ! (?l + i) = y"
      by simp_all
    with hi show ?thesis
      by (metis le_add1)
  qed
  from srt have "sorted_wrt (\<lambda>x y. k y \<le> k x) (take ?l a @ drop ?l a)"
    by simp
  then have parts: "sorted_wrt (\<lambda>x y. k y \<le> k x) (take ?l a)"
    "sorted_wrt (\<lambda>x y. k y \<le> k x) (drop ?l a)"
    "\<forall>x \<in> set (take ?l a). \<forall>y \<in> set (drop ?l a). k y \<le> k x"
    unfolding sorted_wrt_append by simp_all
  show ?thesis
    unfolding binaryInsert_def sorted_wrt_append
    using parts before after by (auto simp add: less_imp_le)
qed

lemma set_binaryInsert: "set (binaryInsert comparefn pivot a) = insert pivot (set a)"
  using mset_binaryInsert [of comparefn pivot a]
  by (metis set_mset_add_mset_insert set_mset_mset)

lemma fold_binaryInsert_sorted:
  fixes k :: "'a \<Rightarrow> int"
  assumes neg: "\<And>a b. a \<in> U \<Longrightarrow> b \<in> U \<Longrightarrow> negative (comparefn a b) = (k b < k a)"
  shows "set xs \<subseteq> U \<Longrightarrow> set acc \<subseteq> U \<Longrightarrow> sorted_wrt (\<lambda>x y. k y \<le> k x) acc
     \<Longrightarrow> sorted_wrt (\<lambda>x y. k y \<le> k x) (fold (binaryInsert comparefn) xs acc)"
proof (induction xs arbitrary: acc)
  case Nil
  then show ?case by simp
next
  case (Cons x xs)
  from Cons.prems have x: "x \<in> U" and xs: "set xs \<subseteq> U"
    by simp_all
  have s: "sorted_wrt (\<lambda>x y. k y \<le> k x) (binaryInsert comparefn x acc)"
    by (rule binaryInsert_sorted [where U = U and k = k and comparefn = comparefn,
          OF neg Cons.prems(2) x Cons.prems(3)])
  have u: "set (binaryInsert comparefn x acc) \<subseteq> U"
    using x Cons.prems(2) by (simp add: set_binaryInsert)
  from Cons.IH [OF xs u s] show ?case
    by simp
qed

lemma js_sort_sorted:
  fixes k :: "'a \<Rightarrow> int"
  assumes neg: "\<And>a b. a \<in> U \<Longrightarrow> b \<in> U \<Longrightarrow> negative (comparefn a b) = (k b < k a)"
    and U: "set xs \<subseteq> U"
  shows "sorted_wrt (\<lambda>x y. k y \<le> k x) (js_sort comparefn xs)"
proof (cases "\<exists>x y rest. xs = x # y # rest")
  case True
  then obtain x y rest where xs: "xs = x # y # rest"
    by blast
  from U xs have xy: "x \<in> U" "y \<in> U" and yr: "set (y # rest) \<subseteq> U" and r: "set rest \<subseteq> U"
    by simp_all
  from xy have n: "negative (comparefn y x) = (k x < k y)"
    by (intro neg)
  have dr: "set (drop n rest) \<subseteq> U" for n
    using r by (meson set_drop_subset subset_trans)
  have tk: "set (take n rest) \<subseteq> U" for n
    using r by (meson set_take_subset subset_trans)
  show ?thesis
  proof (cases "k x < k y")
    case True
    let ?n = "countRun comparefn True y rest"
    from countRun_descending [where U = U and k = k and comparefn = comparefn, OF neg yr]
    have "sorted_wrt (\<lambda>a b. k a < k b) (y # take ?n rest)"
      by simp
    with True have "sorted_wrt (\<lambda>a b. k a < k b) (x # y # take ?n rest)"
      by (auto intro: less_trans)
    then have "sorted_wrt (\<lambda>a b. k b < k a) (rev (x # y # take ?n rest))"
      unfolding sorted_wrt_rev .
    then have "sorted_wrt (\<lambda>a b. k b \<le> k a) (rev (x # y # take ?n rest))"
      by (rule sorted_wrt_mono_rel [rotated]) simp
    moreover have "set (rev (x # y # take ?n rest)) \<subseteq> U"
      using xy tk by simp
    ultimately have "sorted_wrt (\<lambda>a b. k b \<le> k a)
        (fold (binaryInsert comparefn) (drop ?n rest) (rev (x # y # take ?n rest)))"
      using dr by (intro fold_binaryInsert_sorted [where U = U and k = k and comparefn = comparefn, OF neg])
    with True n xs show ?thesis
      by simp
  next
    case False
    let ?n = "countRun comparefn False y rest"
    from countRun_ascending [where U = U and k = k and comparefn = comparefn, OF neg yr]
    have "sorted_wrt (\<lambda>a b. k b \<le> k a) (y # take ?n rest)"
      by simp
    with False have "sorted_wrt (\<lambda>a b. k b \<le> k a) (x # y # take ?n rest)"
      by (auto intro: order_trans)
    moreover have "set (x # y # take ?n rest) \<subseteq> U"
      using xy tk by simp
    ultimately have "sorted_wrt (\<lambda>a b. k b \<le> k a)
        (fold (binaryInsert comparefn) (drop ?n rest) (x # y # take ?n rest))"
      using dr by (intro fold_binaryInsert_sorted [where U = U and k = k and comparefn = comparefn, OF neg])
    with False n xs show ?thesis
      by simp
  qed
next
  case False
  then have "js_sort comparefn xs = xs" "length xs \<le> 1"
    by (cases "(comparefn, xs)" rule: js_sort.cases; simp)+
  then show ?thesis
    by (simp add: sorted_wrt01)
qed

lemma mset_sortByUploadedAt: "mset (sortByUploadedAt getTime vs) = mset vs"
  by (simp add: sortByUploadedAt_def mset_js_sort)

lemma set_sortByUploadedAt: "set (sortByUploadedAt getTime vs) = set vs"
  using mset_sortByUploadedAt [of getTime vs] by (metis set_mset_mset)


lemma sortByUploadedAt_single: "sortByUploadedAt getTime [v] = [v]"
  by (simp add: sortByUploadedAt_def)

lemma negative_compareUploadedAt:
  assumes "getTime (uploadedAt a) = Some ta" and "getTime (uploadedAt b) = Some tb"
  shows "negative (compareUploadedAt getTime a b) = (tb < ta)"
  using assms by (simp add: negative_def compareUploadedAt_def)

lemma notEarlier_parsed:
  assumes "getTime (uploadedAt a) = Some ta" and "getTime (uploadedAt b) = Some tb"
  shows "notEarlier getTime a b = (tb \<le> ta)"
  using assms by (simp add: notEarlier_def)

lemma sortByUploadedAt_descending:
  assumes "\<forall>v \<in> set vs. getTime (uploadedAt v) \<noteq> None"
  shows "sorted_wrt (notEarlier getTime) (sortByUploadedAt getTime vs)"
proof -
  let ?k = "\<lambda>v. the (getTime (uploadedAt v))"
  have neg: "negative (compareUploadedAt getTime a b) = (?k b < ?k a)"
    if "a \<in> set vs" "b \<in> set vs" for a b
  proof -
    from that assms have "getTime (uploadedAt a) \<noteq> None" "getTime (uploadedAt b) \<noteq> None"
      by blast+
    then obtain ta tb where
      "getTime (uploadedAt a) = Some ta" "getTime (uploadedAt b) = Some tb"
      by blast
    then show ?thesis
      by (simp add: negative_compareUploadedAt)
  qed
  have "sorted_wrt (\<lambda>x y. ?k y \<le> ?k x) (js_sort (compareUploadedAt getTime) vs)"
    by (rule js_sort_sorted [where U = "set vs" and k = ?k, OF neg]) simp_all
  then have s: "sorted_wrt (\<lambda>x y. ?k y \<le> ?k x) (sortByUploadedAt getTime vs)"
    by (simp add: sortByUploadedAt_def)
  show ?thesis
  proof (rule sorted_wrt_mono_rel [OF _ s])
    fix x y
    assume "x \<in> set (sortByUploadedAt getTime vs)" "y \<in> set (sortByUploadedAt getTime vs)"
      and le: "?k y \<le> ?k x"
    with assms have "getTime (uploadedAt x) \<noteq> None" "getTime (uploadedAt y) \<noteq> None"
      unfolding set_sortByUploadedAt by blast+
    then obtain tx ty where
      p: "getTime (uploadedAt x) = Some tx" "getTime (uploadedAt y) = Some ty"
      by blast
    with le show "notEarlier getTime x y"
      by (simp add: notEarlier_parsed)
  qed
qed

section \<open>The metadata loop and the video loop\<close>

lemma fold_filter_skip:
  "(\<And>x s. x \<in> set xs \<Longrightarrow> \<not> P x \<Longrightarrow> f x s = s) \<Longrightarrow> fold f (filter P xs) s = fold f xs s"
  by (induction xs arbitrary: s) auto

lemma loadMetadataItem_skip:
  "metadataFile S n = None \<Longrightarrow> loadMetadataItem S n s = s"
  by (cases s) (simp add: loadMetadataItem_def)

lemma processItem_skip:
  "\<not> (getDownloadURL i \<noteq> None \<and> getMetadata i \<noteq> None) \<Longrightarrow> processItem S m i s = s"
  by (cases s) (auto simp add: processItem_def split: option.splits)

lemma loadMetadataItem_frame:
  "loadMetadataItem S n (st, m) = (st', m') \<Longrightarrow>
     videos st' = videos st \<and> (\<exists>xs. heap st' = heap st @ xs)"
  by (auto simp add: loadMetadataItem_def alloc_def split: option.splits)

lemma fold_loadMetadataItem_frame:
  "fold (loadMetadataItem S) ns (st, m) = (st', m') \<Longrightarrow>
     videos st' = videos st \<and> (\<exists>xs. heap st' = heap st @ xs)"
proof (induction ns arbitrary: st m)
  case Nil
  then show ?case by simp
next
  case (Cons n ns)
  obtain st1 m1 where s1: "loadMetadataItem S n (st, m) = (st1, m1)"
    by (cases "loadMetadataItem S n (st, m)")
  from Cons.prems s1 have "fold (loadMetadataItem S) ns (st1, m1) = (st', m')"
    by simp
  from Cons.IH [OF this] loadMetadataItem_frame [OF s1] show ?case
    by auto
qed

lemma valuesOf_append:
  "\<forall>a \<in> set (map snd m). a < length h \<Longrightarrow> valuesOf (h @ xs) m = valuesOf h m"
  by (auto simp add: valuesOf_def nth_append)

lemma getVideos_listing_failure:
  assumes "storageHandle S = None" and "metadataList S = None \<or> videoList S = None"
    and "wf_state st"
  shows "fst (getVideos getTime S st) = memoryFallback getTime st"
    and "videos (snd (getVideos getTime S st)) = videos st"
proof -
  show "fst (getVideos getTime S st) = memoryFallback getTime st"
  proof (cases "metadataList S")
    case None
    with assms show ?thesis by (simp add: getVideos_def)
  next
    case (Some ns)
    with assms have vl: "videoList S = None" by simp
    obtain st1 m1 where f: "fold (loadMetadataItem S) ns (st, []) = (st1, m1)"
      by (cases "fold (loadMetadataItem S) ns (st, [])")
    from fold_loadMetadataItem_frame [OF f] obtain xs where
      fr: "videos st1 = videos st" "heap st1 = heap st @ xs" by auto
    from assms(3) have "valuesOf (heap st @ xs) (videos st) = valuesOf (heap st) (videos st)"
      by (intro valuesOf_append) (simp add: wf_state_def)
    with fr have "memoryFallback getTime st1 = memoryFallback getTime st"
      by (simp add: memoryFallback_def)
    with assms(1) Some vl f show ?thesis
      by (simp add: getVideos_def)
  qed
  show "videos (snd (getVideos getTime S st)) = videos st"
  proof (cases "metadataList S")
    case None
    with assms show ?thesis by (simp add: getVideos_def)
  next
    case (Some ns)
    with assms have vl: "videoList S = None" by simp
    obtain st1 m1 where f: "fold (loadMetadataItem S) ns (st, []) = (st1, m1)"
      by (cases "fold (loadMetadataItem S) ns (st, [])")
    from fold_loadMetadataItem_frame [OF f] have "videos st1 = videos st" by auto
    with assms(1) Some vl f show ?thesis
      by (simp add: getVideos_def)
  qed
qed

text \<open>
  C2 (as amended). When the storage handle is obtained and \<^verbatim>\<open>listAll\<close> throws for the
  metadata or for the video namespace, \<^verbatim>\<open>getVideos\<close> answers \<^verbatim>\<open>success: true\<close> with no error
  and with the records of the in-memory map, every one of them once; the map itself is
  as before. Where the upload time of every cached record parses as a date, the
  records come in descending order of upload time.
\<close>

theorem getVideos_degrades_to_cache:
  "storageHandle S = None \<Longrightarrow> metadataList S = None \<or> videoList S = None \<Longrightarrow> wf_state st \<Longrightarrow>
     fst (getVideos getTime S st) =
       \<lparr>success = True, error = None,
        data = Some (sortByUploadedAt getTime (valuesOf (heap st) (videos st)))\<rparr>
     \<and> mset (sortByUploadedAt getTime (valuesOf (heap st) (videos st))) =
         mset (valuesOf (heap st) (videos st))
     \<and> ((\<forall>v \<in> set (valuesOf (heap st) (videos st)). getTime (uploadedAt v) \<noteq> None) \<longrightarrow>
          sorted_wrt (notEarlier getTime)
            (sortByUploadedAt getTime (valuesOf (heap st) (videos st))))
     \<and> videos (snd (getVideos getTime S st)) = videos st"
  using getVideos_listing_failure [of S st getTime]
  by (simp add: memoryFallback_def sortByUploadedAt_descending mset_sortByUploadedAt)

theorem getVideos_degrades_to_cache_witness:
  "storageHandle listingDown = None \<and> metadataList listingDown = None \<and> wf_state exState
   \<and> valuesOf (heap exState) (videos exState) = [videoA, videoB]
   \<and> exTime (uploadedAt videoA) = Some 1704067200000
   \<and> exTime (uploadedAt videoB) = Some 1704153600000
   \<and> fst (getVideos exTime listingDown exState) =
       \<lparr>success = True, error = None, data = Some [videoB, videoA]\<rparr>
   \<and> sorted_wrt (notEarlier exTime) [videoB, videoA]"
proof -
  have h: "storageHandle listingDown = None" "metadataList listingDown = None"
    by (simp_all add: listingDown_def)
  have wf: "wf_state exState"
    by (simp add: wf_state_def exState_def)
  have v: "valuesOf (heap exState) (videos exState) = [videoA, videoB]"
    by (simp add: valuesOf_def exState_def)
  have t: "exTime (uploadedAt videoA) = Some 1704067200000"
    "exTime (uploadedAt videoB) = Some 1704153600000"
    by (simp_all add: videoA_def videoB_def exTime_def)
  have s: "sortByUploadedAt exTime [videoA, videoB] = [videoB, videoA]"
    by (simp add: sortByUploadedAt_def negative_compareUploadedAt [OF t(2,1)])
  from getVideos_degrades_to_cache [OF h(1) disjI1 [OF h(2)] wf, of exTime] h wf v t
  show ?thesis
    by (simp add: s)
qed

text \<open>
  C2 as stated fails. The cache of \<open>undatedState\<close> holds an older record, a record whose
  upload time is not a date and a newer record, in this order. Every comparison with
  the undated record answers \<^verbatim>\<open>NaN\<close>, the three records count as one run that does not
  descend, and the list comes back with the older record before the newer one.
\<close>

theorem getVideos_degrades_unsorted_counterexample:
  "storageHandle listingDown = None \<and> metadataList listingDown = None \<and> wf_state undatedState
   \<and> exTime (uploadedAt videoA) = Some 1704067200000
   \<and> exTime (uploadedAt undatedVideo) = None
   \<and> exTime (uploadedAt videoB) = Some 1704153600000
   \<and> fst (getVideos exTime listingDown undatedState) =
       \<lparr>success = True, error = None, data = Some [videoA, undatedVideo, videoB]\<rparr>
   \<and> \<not> sorted_wrt (notEarlier exTime) [videoA, undatedVideo, videoB]"
proof -
  have h: "storageHandle listingDown = None" "metadataList listingDown = None"
    by (simp_all add: listingDown_def)
  have wf: "wf_state undatedState"
    by (simp add: wf_state_def undatedState_def)
  have v: "valuesOf (heap undatedState) (videos undatedState) = [videoA, undatedVideo, videoB]"
    by (simp add: valuesOf_def undatedState_def)
  have t: "exTime (uploadedAt videoA) = Some 1704067200000"
    "exTime (uploadedAt undatedVideo) = None"
    "exTime (uploadedAt videoB) = Some 1704153600000"
    by (simp_all add: videoA_def videoB_def undatedVideo_def exTime_def)
  have c: "compareUploadedAt exTime undatedVideo videoA = None"
    "compareUploadedAt exTime videoB undatedVideo = None"
    by (simp_all add: compareUploadedAt_def t)
  have s: "sortByUploadedAt exTime [videoA, undatedVideo, videoB] = [videoA, undatedVideo, videoB]"
    by (simp add: sortByUploadedAt_def c negative_def)
  have g: "fst (getVideos exTime listingDown undatedState) =
       \<lparr>success = True, error = None, data = Some [videoA, undatedVideo, videoB]\<rparr>"
    using h by (simp add: getVideos_def memoryFallback_def v s)
  have n: "\<not> sorted_wrt (notEarlier exTime) [videoA, undatedVideo, videoB]"
    by (simp add: notEarlier_def t)
  from h wf t g n show ?thesis
    by simp
qed














section \<open>The reconciler in closed form\<close>

lemma update_values_subset: "snd ` set (AList.update k v al) \<subseteq> insert v (snd ` set al)"
  by (induction al) auto

lemma update_new_key: "k \<notin> fst ` set al \<Longrightarrow> AList.update k v al = al @ [(k, v)]"
  by (induction al) auto

lemma wf_state_valid: "wf_state st \<Longrightarrow> (k, a) \<in> set (videos st) \<Longrightarrow> a < length (heap st)"
  by (force simp add: wf_state_def)

lemma wf_stateI:
  "distinct (map fst (videos st)) \<Longrightarrow>
   (\<And>k a. (k, a) \<in> set (videos st) \<Longrightarrow> a < length (heap st)) \<Longrightarrow> wf_state st"
  by (auto simp add: wf_state_def)

lemma processItem_ok:
  "itemOk i \<Longrightarrow>
     processItem S m i (st, vm) =
       (let (a, st') = resolve S m (item_name i) (itemId i) (urlOf i) (metaOf i) st
        in (st', addToMap (itemId i) a (heap st') vm))"
  by (auto simp add: processItem_def itemOk_def itemId_def urlOf_def metaOf_def Let_def)

lemma addToMap_new_key: "k \<notin> fst ` set vm \<Longrightarrow> addToMap k a h vm = vm @ [(k, a)]"
  by (simp add: addToMap_def update_new_key map_of_eq_None_iff [THEN iffD2])

lemma notin_imageD: "x \<notin> f ` A \<Longrightarrow> j \<in> A \<Longrightarrow> f j \<noteq> x"
  by (rule notI) (erule notE, erule subst, erule imageI)

lemma loadMetadataItem_Some:
  "metadataFile S n = Some d \<Longrightarrow>
     loadMetadataItem S n (st, m) =
       (st\<lparr>heap := heap st @ [d]\<rparr>, AList.update (cleanUrl (v_url d)) (length (heap st)) m)"
  by (simp add: loadMetadataItem_def alloc_def)

lemma wf_state_append: "wf_state st \<Longrightarrow> wf_state (st\<lparr>heap := heap st @ xs\<rparr>)"
  by (auto simp add: wf_state_def)

lemma state_frame_eq:
  "videos st1 = videos st \<Longrightarrow> heap st1 = heap st @ xs \<Longrightarrow> (st1 :: state) = st\<lparr>heap := heap st @ xs\<rparr>"
  by (cases st, cases st1) simp

lemma planOf_cong:
  "map_of c (itemId j) = map_of c' (itemId j) \<Longrightarrow> planOf S m c j = planOf S m c' j"
  by (simp add: planOf_def cong: option.case_cong)

lemma processItem_plan:
  assumes ok: "itemOk j" and new: "itemId j \<notin> fst ` set vm"
  shows "\<exists>a st1. processItem S m j (st, vm) = (st1, vm @ [(itemId j, a)])
           \<and> videos st1 = AList.update (itemId j) a (videos st)
           \<and> (case planOf S m (videos st) j of
                 Adopt t \<Rightarrow> a = t \<and> heap st1 = (heap st)[t := writeAt (Adopt t) j t (heap st ! t)]
               | Reuse t \<Rightarrow> a = t \<and> heap st1 = (heap st)[t := writeAt (Reuse t) j t (heap st ! t)]
               | Fresh v \<Rightarrow> a = length (heap st) \<and> heap st1 = heap st @ [v])"
proof -
  obtain a st1 where r: "resolve S m (item_name j) (itemId j) (urlOf j) (metaOf j) st = (a, st1)"
    by (cases "resolve S m (item_name j) (itemId j) (urlOf j) (metaOf j) st")
  have p: "processItem S m j (st, vm) = (st1, vm @ [(itemId j, a)])"
    using ok r new by (simp add: processItem_ok addToMap_new_key)
  have "videos st1 = AList.update (itemId j) a (videos st)
      \<and> (case planOf S m (videos st) j of
            Adopt t \<Rightarrow> a = t \<and> heap st1 = (heap st)[t := writeAt (Adopt t) j t (heap st ! t)]
          | Reuse t \<Rightarrow> a = t \<and> heap st1 = (heap st)[t := writeAt (Reuse t) j t (heap st ! t)]
          | Fresh v \<Rightarrow> a = length (heap st) \<and> heap st1 = heap st @ [v])"
    using r
    by (auto simp add: resolve_cases planOf_def writeAt_def update_triv split: option.splits)
  with p show ?thesis
    by blast
qed

lemma step_heap_at:
  assumes "case p of
             Adopt t \<Rightarrow> a = t \<and> h1 = h[t := writeAt (Adopt t) j t (h ! t)]
           | Reuse t \<Rightarrow> a = t \<and> h1 = h[t := writeAt (Reuse t) j t (h ! t)]
           | Fresh v \<Rightarrow> a = length h \<and> h1 = h @ [v]"
    and "x < length h"
  shows "h1 ! x = writeAt p j x (h ! x)" and "length h \<le> length h1"
  using assms by (cases p; auto simp add: writeAt_def nth_append)+

lemma planOf_target:
  assumes "planOf S m c j = Adopt t \<or> planOf S m c j = Reuse t"
  shows "(cleanUrl (urlOf j), t) \<in> set m \<or> (itemId j, t) \<in> set c"
  using assms
  by (auto simp add: planOf_def split: option.splits dest: map_of_SomeD)

lemma planOf_target_valid:
  assumes "wf_state st" and "\<forall>p \<in> set m. snd p < length (heap st)"
    and "planOf S m (videos st) j = Adopt t \<or> planOf S m (videos st) j = Reuse t"
  shows "t < length (heap st)"
proof -
  from planOf_target [OF assms(3)]
  show ?thesis
  proof
    assume "(cleanUrl (urlOf j), t) \<in> set m"
    with assms(2) show ?thesis by force
  next
    assume "(itemId j, t) \<in> set (videos st)"
    with assms(1) show ?thesis by (rule wf_state_valid)
  qed
qed

lemma finalAt_Cons:
  "finalAt S m c (j # items) x v = finalAt S m c items x (writeAt (planOf S m c j) j x v)"
  by (simp add: finalAt_def)

lemma finalAt_cong:
  assumes "\<And>j. j \<in> set items \<Longrightarrow> planOf S m c j = planOf S m c' j"
  shows "finalAt S m c items x v = finalAt S m c' items x v"
  using assms by (induction items arbitrary: v) (simp_all add: finalAt_def)

lemma writeAt_other:
  "(\<And>t. p = Adopt t \<or> p = Reuse t \<Longrightarrow> t \<noteq> x) \<Longrightarrow> writeAt p j x v = v"
  by (cases p) (auto simp add: writeAt_def)

lemma finalAt_fixed:
  assumes "\<And>j. j \<in> set items \<Longrightarrow> writeAt (planOf S m c j) j x v = v"
  shows "finalAt S m c items x v = v"
  using assms by (induction items) (simp_all add: finalAt_def)

lemma finalAt_untouched:
  assumes "\<And>j t. j \<in> set items \<Longrightarrow> planOf S m c j = Adopt t \<or> planOf S m c j = Reuse t \<Longrightarrow> t \<noteq> x"
  shows "finalAt S m c items x v = v"
proof (rule finalAt_fixed)
  fix j
  assume "j \<in> set items"
  then show "writeAt (planOf S m c j) j x v = v"
    by (intro writeAt_other assms)
qed

lemma fold_processItem_plan:
  assumes "\<forall>j \<in> set items. itemOk j"
    and "distinct (map itemId items)"
    and "wf_state st"
    and "\<forall>p \<in> set m. snd p < length (heap st)"
    and "\<forall>j \<in> set items. itemId j \<notin> fst ` set vm"
    and "fold (processItem S m) items (st, vm) = (st', vm')"
  shows "wf_state st' \<and> length (heap st) \<le> length (heap st')
       \<and> (\<forall>x < length (heap st). heap st' ! x = finalAt S m (videos st) items x (heap st ! x))
       \<and> (\<forall>k. k \<notin> itemId ` set items \<longrightarrow> map_of (videos st') k = map_of (videos st) k)
       \<and> (\<exists>as. vm' = vm @ zip (map itemId items) as
             \<and> list_all2 (\<lambda>j a. map_of (videos st') (itemId j) = Some a
                    \<and> placed (planOf S m (videos st) j) (length (heap st)) (heap st') a) items as)"
  using assms
proof (induction items arbitrary: st vm)
  case Nil
  then show ?case by (simp add: finalAt_def)
next
  case (Cons j items)
  let ?k = "itemId j"
  let ?p = "planOf S m (videos st) j"
  from Cons.prems have ok: "itemOk j" and knew: "?k \<notin> fst ` set vm"
    and wf: "wf_state st" and mb: "\<forall>p \<in> set m. snd p < length (heap st)"
    by simp_all
  from processItem_plan [OF ok knew, of S m st] obtain a st1 where
    step: "processItem S m j (st, vm) = (st1, vm @ [(?k, a)])"
    and v1: "videos st1 = AList.update ?k a (videos st)"
    and hp: "case ?p of
               Adopt t \<Rightarrow> a = t \<and> heap st1 = (heap st)[t := writeAt (Adopt t) j t (heap st ! t)]
             | Reuse t \<Rightarrow> a = t \<and> heap st1 = (heap st)[t := writeAt (Reuse t) j t (heap st ! t)]
             | Fresh v \<Rightarrow> a = length (heap st) \<and> heap st1 = heap st @ [v]"
    by blast
  have len1: "length (heap st) \<le> length (heap st1)"
    using hp by (cases ?p) auto
  have at1: "heap st1 ! x = writeAt ?p j x (heap st ! x)" if "x < length (heap st)" for x
    using step_heap_at(1) [OF hp that] .
  have a1: "a < length (heap st1)"
  proof (cases ?p)
    case (Adopt t)
    with planOf_target_valid [OF wf mb, of S j t] hp show ?thesis by simp
  next
    case (Reuse t)
    with planOf_target_valid [OF wf mb, of S j t] hp show ?thesis by simp
  next
    case (Fresh v)
    with hp show ?thesis by simp
  qed
  have wf1: "wf_state st1"
  proof (rule wf_stateI)
    from wf show "distinct (map fst (videos st1))"
      unfolding v1 by (simp add: wf_state_def distinct_update)
  next
    fix k' b
    assume "(k', b) \<in> set (videos st1)"
    then have "b \<in> snd ` set (AList.update ?k a (videos st))"
      unfolding v1 by force
    with update_values_subset [of ?k a "videos st"]
    have "b = a \<or> b \<in> snd ` set (videos st)"
      by blast
    then show "b < length (heap st1)"
    proof
      assume "b = a"
      with a1 show ?thesis by simp
    next
      assume "b \<in> snd ` set (videos st)"
      then obtain k0 where "(k0, b) \<in> set (videos st)"
        by auto
      from wf_state_valid [OF wf this] len1 show ?thesis
        by simp
    qed
  qed
  have mb1: "\<forall>p \<in> set m. snd p < length (heap st1)"
    using mb len1 by fastforce
  from Cons.prems(2) have knotin: "?k \<notin> itemId ` set items"
    by simp
  have keys1: "\<forall>j' \<in> set items. itemId j' \<notin> fst ` set (vm @ [(?k, a)])"
  proof
    fix j'
    assume j': "j' \<in> set items"
    with Cons.prems(5) have "itemId j' \<notin> fst ` set vm"
      by simp
    moreover from notin_imageD [OF knotin j'] have "itemId j' \<noteq> ?k" .
    ultimately show "itemId j' \<notin> fst ` set (vm @ [(?k, a)])"
      by simp
  qed
  from Cons.prems step have f: "fold (processItem S m) items (st1, vm @ [(?k, a)]) = (st', vm')"
    by simp
  from Cons.prems have rest: "\<forall>j \<in> set items. itemOk j" "distinct (map itemId items)"
    by simp_all
  from Cons.IH [OF rest wf1 mb1 keys1 f] obtain as where
    wf': "wf_state st'" and len': "length (heap st1) \<le> length (heap st')"
    and at': "\<forall>x < length (heap st1). heap st' ! x = finalAt S m (videos st1) items x (heap st1 ! x)"
    and fr': "\<forall>k. k \<notin> itemId ` set items \<longrightarrow> map_of (videos st') k = map_of (videos st1) k"
    and vm': "vm' = (vm @ [(?k, a)]) @ zip (map itemId items) as"
    and pl': "list_all2 (\<lambda>j a. map_of (videos st') (itemId j) = Some a
                    \<and> placed (planOf S m (videos st1) j) (length (heap st1)) (heap st') a) items as"
    by blast
  have same: "planOf S m (videos st1) j' = planOf S m (videos st) j'" if "j' \<in> set items" for j'
  proof (rule planOf_cong)
    from notin_imageD [OF knotin that] show "map_of (videos st1) (itemId j') = map_of (videos st) (itemId j')"
      by (simp add: v1 update_conv')
  qed
  have fin: "finalAt S m (videos st1) items x v = finalAt S m (videos st) items x v" for x v
    by (rule finalAt_cong) (rule same)
  have c3: "heap st' ! x = finalAt S m (videos st) (j # items) x (heap st ! x)"
    if "x < length (heap st)" for x
  proof -
    from that len1 have "x < length (heap st1)"
      by simp
    with at' have "heap st' ! x = finalAt S m (videos st1) items x (heap st1 ! x)"
      by blast
    then show ?thesis
      by (simp add: fin at1 [OF that] finalAt_Cons)
  qed
  have c4: "map_of (videos st') k' = map_of (videos st) k'" if "k' \<notin> itemId ` set (j # items)" for k'
  proof -
    from that have "k' \<notin> itemId ` set items" "k' \<noteq> ?k"
      by auto
    with fr' show ?thesis
      by (simp add: v1 update_conv')
  qed
  have ka: "map_of (videos st') ?k = Some a"
    using fr' knotin by (simp add: v1 update_conv')
  have pa: "placed ?p (length (heap st)) (heap st') a"
  proof (cases ?p)
    case (Adopt t)
    with hp show ?thesis by (simp add: placed_def)
  next
    case (Reuse t)
    with hp show ?thesis by (simp add: placed_def)
  next
    case (Fresh v)
    with hp have a: "a = length (heap st)" and h1: "heap st1 = heap st @ [v]"
      by simp_all
    from at' a1 have "heap st' ! a = finalAt S m (videos st1) items a (heap st1 ! a)"
      by blast
    also have "heap st1 ! a = v"
      by (simp add: a h1)
    also have "finalAt S m (videos st1) items a v = v"
    proof (rule finalAt_untouched)
      fix j' t
      assume j': "j' \<in> set items"
        and "planOf S m (videos st1) j' = Adopt t \<or> planOf S m (videos st1) j' = Reuse t"
      then have "planOf S m (videos st) j' = Adopt t \<or> planOf S m (videos st) j' = Reuse t"
        by (simp add: same)
      from planOf_target_valid [OF wf mb this] a show "t \<noteq> a"
        by simp
    qed
    finally have "heap st' ! a = v" .
    with Fresh a a1 len' show ?thesis
      by (simp add: placed_def)
  qed
  have pl: "list_all2 (\<lambda>j a. map_of (videos st') (itemId j) = Some a
                    \<and> placed (planOf S m (videos st) j) (length (heap st)) (heap st') a) items as"
  proof (rule list.rel_mono_strong [OF pl'])
    fix j' b
    assume j': "j' \<in> set items" and "b \<in> set as"
      and "map_of (videos st') (itemId j') = Some b
         \<and> placed (planOf S m (videos st1) j') (length (heap st1)) (heap st') b"
    with len1 show "map_of (videos st') (itemId j') = Some b
         \<and> placed (planOf S m (videos st) j') (length (heap st)) (heap st') b"
      by (auto simp add: same placed_def split: plan.splits)
  qed
  have "vm' = vm @ zip (map itemId (j # items)) (a # as)"
    by (simp add: vm')
  moreover have "list_all2 (\<lambda>j a. map_of (videos st') (itemId j) = Some a
                    \<and> placed (planOf S m (videos st) j) (length (heap st)) (heap st') a)
                  (j # items) (a # as)"
    using ka pa pl by simp
  ultimately have c5: "\<exists>as. vm' = vm @ zip (map itemId (j # items)) as
             \<and> list_all2 (\<lambda>j a. map_of (videos st') (itemId j) = Some a
                    \<and> placed (planOf S m (videos st) j) (length (heap st)) (heap st') a) (j # items) as"
    by blast
  from wf' len1 len' c3 c4 c5 show ?case
    by simp
qed

lemma docsOf_Cons:
  "docsOf S (n # ns) = (case metadataFile S n of None \<Rightarrow> docsOf S ns | Some d \<Rightarrow> d # docsOf S ns)"
  by (simp add: docsOf_def map_filter_simps split: option.splits)

lemma fold_loadMetadataItem_closed:
  "fold (loadMetadataItem S) ns (st, m) =
     (st\<lparr>heap := heap st @ docsOf S ns\<rparr>, indexFrom S (length (heap st)) ns m)"
proof (induction ns arbitrary: st m)
  case Nil
  then show ?case by (simp add: docsOf_def map_filter_simps)
next
  case (Cons n ns)
  show ?case
  proof (cases "metadataFile S n")
    case None
    then show ?thesis
      by (simp add: loadMetadataItem_skip Cons.IH docsOf_Cons)
  next
    case (Some d)
    then show ?thesis
      by (simp add: loadMetadataItem_Some Cons.IH docsOf_Cons)
  qed
qed

lemma indexFrom_bounds:
  assumes "\<forall>p \<in> set m. lo \<le> snd p \<and> snd p < b" and "lo \<le> b"
  shows "\<forall>p \<in> set (indexFrom S b ns m). lo \<le> snd p \<and> snd p < b + length (docsOf S ns)"
  using assms
proof (induction ns arbitrary: b m)
  case Nil
  then show ?case by (simp add: docsOf_def map_filter_simps)
next
  case (Cons n ns)
  show ?case
  proof (cases "metadataFile S n")
    case None
    with Cons.IH [OF Cons.prems] show ?thesis
      by (simp add: docsOf_Cons)
  next
    case (Some d)
    have "\<forall>p \<in> set (AList.update (cleanUrl (v_url d)) b m). lo \<le> snd p \<and> snd p < Suc b"
    proof
      fix p
      assume "p \<in> set (AList.update (cleanUrl (v_url d)) b m)"
      then have "snd p \<in> snd ` set (AList.update (cleanUrl (v_url d)) b m)"
        by (rule imageI)
      with update_values_subset [of "cleanUrl (v_url d)" b m]
      have "snd p = b \<or> snd p \<in> snd ` set m"
        by blast
      then show "lo \<le> snd p \<and> snd p < Suc b"
      proof
        assume "snd p = b"
        with Cons.prems(2) show ?thesis by simp
      next
        assume "snd p \<in> snd ` set m"
        then obtain q where "q \<in> set m" "snd q = snd p"
          by auto
        with Cons.prems(1) show ?thesis
          by fastforce
      qed
    qed
    moreover from Cons.prems(2) have "lo \<le> Suc b"
      by simp
    ultimately have "\<forall>p \<in> set (indexFrom S (Suc b) ns (AList.update (cleanUrl (v_url d)) b m)).
        lo \<le> snd p \<and> snd p < Suc b + length (docsOf S ns)"
      by (rule Cons.IH)
    with Some show ?thesis
      by (simp add: docsOf_Cons)
  qed
qed

lemma update_shift:
  "AList.update k (a + d) (map (apsnd (\<lambda>a. a + d)) m) = map (apsnd (\<lambda>a. a + d)) (AList.update k a m)"
  by (induction m) auto

lemma indexFrom_shift:
  "indexFrom S (b + d) ns (map (apsnd (\<lambda>a. a + d)) m) = map (apsnd (\<lambda>a. a + d)) (indexFrom S b ns m)"
proof (induction ns arbitrary: b m)
  case Nil
  then show ?case by simp
next
  case (Cons n ns)
  show ?case
  proof (cases "metadataFile S n")
    case None
    then show ?thesis by (simp add: Cons.IH)
  next
    case (Some doc)
    have "indexFrom S (Suc b + d) ns (map (apsnd (\<lambda>a. a + d)) (AList.update (cleanUrl (v_url doc)) b m))
        = map (apsnd (\<lambda>a. a + d)) (indexFrom S (Suc b) ns (AList.update (cleanUrl (v_url doc)) b m))"
      by (rule Cons.IH)
    with Some show ?thesis
      by (simp add: update_shift)
  qed
qed

lemma map_of_shift:
  "map_of (map (apsnd (\<lambda>a. a + d)) m) k = map_option (\<lambda>a. a + (d::nat)) (map_of m k)"
  by (induction m) auto

lemma list_all2_lhsD:
  "list_all2 P xs ys \<Longrightarrow> x \<in> set xs \<Longrightarrow> \<exists>y. P x y"
  by (induction rule: list_all2_induct) auto

lemma list_all2_map_eq:
  "list_all2 (\<lambda>x y. f x = g y) xs ys \<Longrightarrow> map f xs = map g ys"
  by (induction rule: list_all2_induct) auto

lemma valuesOf_zip:
  "length ks = length as \<Longrightarrow> valuesOf h (zip ks as) = map (\<lambda>a. h ! a) as"
  by (induction ks as rule: list_induct2) (simp_all add: valuesOf_def)

lemma getVideos_plan:
  assumes h: "storageHandle S = None" and ml: "metadataList S = Some ns"
    and vl: "videoList S = Some items"
    and wf: "wf_state st"
    and ids: "distinct (map itemId (filter itemOk items))"
  shows "\<exists>stF. getVideos getTime S st =
           (\<lparr>success = True, error = None,
             data = Some (sortByUploadedAt getTime
                      (map (valOf S (indexFrom S (length (heap st)) ns []) (videos st)
                              (heap st @ docsOf S ns) (filter itemOk items))
                         (filter itemOk items)))\<rparr>, stF)
         \<and> wf_state stF
         \<and> length (heap st @ docsOf S ns) \<le> length (heap stF)
         \<and> (\<forall>x < length (heap st @ docsOf S ns).
               heap stF ! x =
                 finalAt S (indexFrom S (length (heap st)) ns []) (videos st) (filter itemOk items) x
                   ((heap st @ docsOf S ns) ! x))
         \<and> (\<forall>k. k \<notin> itemId ` set (filter itemOk items) \<longrightarrow> map_of (videos stF) k = map_of (videos st) k)
         \<and> (\<forall>j \<in> set (filter itemOk items).
               \<exists>a. map_of (videos stF) (itemId j) = Some a
                 \<and> placed (planOf S (indexFrom S (length (heap st)) ns []) (videos st) j)
                      (length (heap st @ docsOf S ns)) (heap stF) a)"
proof -
  let ?m = "indexFrom S (length (heap st)) ns []"
  let ?h1 = "heap st @ docsOf S ns"
  let ?st1 = "st\<lparr>heap := ?h1\<rparr>"
  let ?ok = "filter itemOk items"
  have f1: "fold (loadMetadataItem S) ns (st, []) = (?st1, ?m)"
    by (rule fold_loadMetadataItem_closed)
  have wf1: "wf_state ?st1"
    using wf by (rule wf_state_append)
  have "\<forall>p \<in> set ?m. length (heap st) \<le> snd p \<and> snd p < length (heap st) + length (docsOf S ns)"
    by (rule indexFrom_bounds) simp_all
  then have mb: "\<forall>p \<in> set ?m. snd p < length (heap ?st1)"
    by simp
  obtain stF vmF where f2: "fold (processItem S ?m) ?ok (?st1, []) = (stF, vmF)"
    by (cases "fold (processItem S ?m) ?ok (?st1, [])")
  have skip: "fold (processItem S ?m) ?ok (?st1, []) = fold (processItem S ?m) items (?st1, [])"
    by (rule fold_filter_skip) (simp add: processItem_skip itemOk_def)
  have "wf_state stF \<and> length (heap ?st1) \<le> length (heap stF)
       \<and> (\<forall>x < length (heap ?st1). heap stF ! x = finalAt S ?m (videos ?st1) ?ok x (heap ?st1 ! x))
       \<and> (\<forall>k. k \<notin> itemId ` set ?ok \<longrightarrow> map_of (videos stF) k = map_of (videos ?st1) k)
       \<and> (\<exists>as. vmF = [] @ zip (map itemId ?ok) as
             \<and> list_all2 (\<lambda>j a. map_of (videos stF) (itemId j) = Some a
                    \<and> placed (planOf S ?m (videos ?st1) j) (length (heap ?st1)) (heap stF) a) ?ok as)"
    by (rule fold_processItem_plan [OF _ ids wf1 mb _ f2]) simp_all
  then obtain as where wfF: "wf_state stF" and lenF: "length ?h1 \<le> length (heap stF)"
    and atF: "\<forall>x < length ?h1. heap stF ! x = finalAt S ?m (videos st) ?ok x (?h1 ! x)"
    and frF: "\<forall>k. k \<notin> itemId ` set ?ok \<longrightarrow> map_of (videos stF) k = map_of (videos st) k"
    and vmF: "vmF = zip (map itemId ?ok) as"
    and pl: "list_all2 (\<lambda>j a. map_of (videos stF) (itemId j) = Some a
                    \<and> placed (planOf S ?m (videos st) j) (length ?h1) (heap stF) a) ?ok as"
    by auto
  from pl have las: "length (map itemId ?ok) = length as"
    by (simp add: list_all2_lengthD)
  have "list_all2 (\<lambda>j a. valOf S ?m (videos st) ?h1 ?ok j = heap stF ! a) ?ok as"
  proof (rule list.rel_mono_strong [OF pl])
    fix j a
    assume "j \<in> set ?ok" "a \<in> set as"
      and p: "map_of (videos stF) (itemId j) = Some a
         \<and> placed (planOf S ?m (videos st) j) (length ?h1) (heap stF) a"
    show "valOf S ?m (videos st) ?h1 ?ok j = heap stF ! a"
    proof (cases "planOf S ?m (videos st) j")
      case (Adopt t)
      with planOf_target_valid [OF wf1 mb, of S j t] have "t < length ?h1"
        by simp
      with atF Adopt p show ?thesis
        by (simp add: valOf_def placed_def)
    next
      case (Reuse t)
      with planOf_target_valid [OF wf1 mb, of S j t] have "t < length ?h1"
        by simp
      with atF Reuse p show ?thesis
        by (simp add: valOf_def placed_def)
    next
      case (Fresh v)
      with p show ?thesis
        by (simp add: valOf_def placed_def)
    qed
  qed
  then have "map (valOf S ?m (videos st) ?h1 ?ok) ?ok = map (\<lambda>a. heap stF ! a) as"
    by (rule list_all2_map_eq)
  with valuesOf_zip [OF las, of "heap stF"] vmF
  have vals: "valuesOf (heap stF) vmF = map (valOf S ?m (videos st) ?h1 ?ok) ?ok"
    by simp
  from f2 skip have f2': "fold (processItem S ?m) items (?st1, []) = (stF, vmF)"
    by simp
  have g: "getVideos getTime S st =
      (\<lparr>success = True, error = None,
        data = Some (sortByUploadedAt getTime (valuesOf (heap stF) vmF))\<rparr>, stF)"
    using h ml vl f1 f2' by (simp add: getVideos_def)
  have ex: "\<exists>a. map_of (videos stF) (itemId j) = Some a
                 \<and> placed (planOf S ?m (videos st) j) (length ?h1) (heap stF) a"
    if "j \<in> set ?ok" for j
    using list_all2_lhsD [OF pl that] .
  show ?thesis
  proof (intro exI [of _ stF] conjI)
    show "getVideos getTime S st =
           (\<lparr>success = True, error = None,
             data = Some (sortByUploadedAt getTime
                      (map (valOf S ?m (videos st) ?h1 ?ok) ?ok))\<rparr>, stF)"
      using g vals by simp
    show "\<forall>j \<in> set ?ok. \<exists>a. map_of (videos stF) (itemId j) = Some a
                 \<and> placed (planOf S ?m (videos st) j) (length ?h1) (heap stF) a"
      using ex by blast
  qed (fact wfF lenF atF frF)+
qed

section \<open>Running the reconciler twice\<close>

lemma getVideos_listing_failure_state:
  assumes "storageHandle S = None" and "metadataList S = None \<or> videoList S = None"
    and "wf_state st"
  shows "wf_state (snd (getVideos getTime S st))"
    and "memoryFallback getTime' (snd (getVideos getTime S st)) = memoryFallback getTime' st"
proof -
  have "wf_state (snd (getVideos getTime S st))
      \<and> memoryFallback getTime' (snd (getVideos getTime S st)) = memoryFallback getTime' st"
  proof (cases "metadataList S")
    case None
    with assms show ?thesis by (simp add: getVideos_def)
  next
    case (Some ns)
    with assms have vl: "videoList S = None" by simp
    obtain st1 m1 where f: "fold (loadMetadataItem S) ns (st, []) = (st1, m1)"
      by (cases "fold (loadMetadataItem S) ns (st, [])")
    from fold_loadMetadataItem_frame [OF f] obtain xs where
      fr: "videos st1 = videos st" "heap st1 = heap st @ xs" by auto
    then have st1: "st1 = st\<lparr>heap := heap st @ xs\<rparr>"
      by (rule state_frame_eq)
    from assms(3) have "valuesOf (heap st @ xs) (videos st) = valuesOf (heap st) (videos st)"
      by (intro valuesOf_append) (simp add: wf_state_def)
    with fr have "memoryFallback getTime' st1 = memoryFallback getTime' st"
      by (simp add: memoryFallback_def)
    moreover have "wf_state st1"
      unfolding st1 using assms(3) by (rule wf_state_append)
    moreover have "snd (getVideos getTime S st) = st1"
      using assms(1) Some vl f by (simp add: getVideos_def)
    ultimately show ?thesis
      by simp
  qed
  then show "wf_state (snd (getVideos getTime S st))"
    and "memoryFallback getTime' (snd (getVideos getTime S st)) = memoryFallback getTime' st"
    by simp_all
qed

lemma fold_pointwise:
  "(\<And>i v. i \<in> set xs \<Longrightarrow> f i v = g i v) \<Longrightarrow> fold f xs v = fold g xs v"
  by (induction xs arbitrary: v) simp_all

lemma fold_url_writes:
  assumes "\<And>i. i \<in> set xs \<Longrightarrow> (\<forall>v. f i v = v) \<or> (\<exists>u. \<forall>v. f i v = v\<lparr>v_url := u\<rparr>)"
  shows "(\<forall>v. fold f xs v = v) \<or> (\<exists>u. \<forall>v. fold f xs v = v\<lparr>v_url := u\<rparr>)"
  using assms
proof (induction xs)
  case Nil
  then show ?case by simp
next
  case (Cons x xs)
  from Cons.prems have fx: "(\<forall>v. f x v = v) \<or> (\<exists>u. \<forall>v. f x v = v\<lparr>v_url := u\<rparr>)"
    by simp
  from Cons have "(\<forall>v. fold f xs v = v) \<or> (\<exists>u. \<forall>v. fold f xs v = v\<lparr>v_url := u\<rparr>)"
    by simp
  then show ?case
  proof
    assume "\<forall>v. fold f xs v = v"
    with fx show ?thesis by simp
  next
    assume "\<exists>u. \<forall>v. fold f xs v = v\<lparr>v_url := u\<rparr>"
    then obtain u where u: "\<forall>v. fold f xs v = v\<lparr>v_url := u\<rparr>"
      by blast
    from fx have "\<forall>v. (f x v)\<lparr>v_url := u\<rparr> = v\<lparr>v_url := u\<rparr>"
      by auto
    with u have "\<forall>v. fold f (x # xs) v = v\<lparr>v_url := u\<rparr>"
      by simp
    then show ?thesis by blast
  qed
qed

lemma fold_url_writes_idem:
  assumes "\<And>i. i \<in> set xs \<Longrightarrow> (\<forall>v. f i v = v) \<or> (\<exists>u. \<forall>v. f i v = v\<lparr>v_url := u\<rparr>)"
  shows "fold f xs (fold f xs v) = fold f xs v"
  using fold_url_writes [of xs f, OF assms] by auto

lemma getVideos_twice:
  assumes wf: "wf_state st"
    and ids: "case videoList S of None \<Rightarrow> True
              | Some items \<Rightarrow> distinct (map itemId (filter itemOk items))"
  shows "fst (getVideos getTime S (snd (getVideos getTime S st))) = fst (getVideos getTime S st)"
proof (cases "storageHandle S")
  case (Some e)
  then show ?thesis
    by (simp add: getVideos_def)
next
  case None
  note h = None
  show ?thesis
  proof (cases "metadataList S = None \<or> videoList S = None")
    case True
    from getVideos_listing_failure_state(1) [OF h True wf]
    have wf1: "wf_state (snd (getVideos getTime S st))" .
    from getVideos_listing_failure_state(2) [OF h True wf]
    have mf: "memoryFallback getTime (snd (getVideos getTime S st)) = memoryFallback getTime st" .
    from getVideos_listing_failure(1) [OF h True wf1]
      getVideos_listing_failure(1) [OF h True wf] mf
    show ?thesis
      by simp
  next
    case False
    then obtain ns items where ml: "metadataList S = Some ns" and vl: "videoList S = Some items"
      by auto
    let ?ok = "filter itemOk items"
    let ?H0 = "length (heap st)"
    let ?m = "indexFrom S ?H0 ns []"
    let ?c = "videos st"
    let ?docs = "docsOf S ns"
    let ?h1 = "heap st @ ?docs"
    from ids vl have idd: "distinct (map itemId ?ok)"
      by simp
    from getVideos_plan [OF h ml vl wf idd, of getTime] obtain stF where
      run1: "getVideos getTime S st =
           (\<lparr>success = True, error = None,
             data = Some (sortByUploadedAt getTime (map (valOf S ?m ?c ?h1 ?ok) ?ok))\<rparr>, stF)"
      and wfF: "wf_state stF"
      and lenF: "length ?h1 \<le> length (heap stF)"
      and atF: "\<forall>x < length ?h1. heap stF ! x = finalAt S ?m ?c ?ok x (?h1 ! x)"
      and exF: "\<forall>j \<in> set ?ok. \<exists>a. map_of (videos stF) (itemId j) = Some a
                 \<and> placed (planOf S ?m ?c j) (length ?h1) (heap stF) a"
      by blast
    let ?HF = "length (heap stF)"
    let ?m2 = "indexFrom S ?HF ns []"
    let ?c2 = "videos stF"
    let ?h2 = "heap stF @ ?docs"
    from getVideos_plan [OF h ml vl wfF idd, of getTime] obtain stG where
      run2: "getVideos getTime S stF =
           (\<lparr>success = True, error = None,
             data = Some (sortByUploadedAt getTime (map (valOf S ?m2 ?c2 ?h2 ?ok) ?ok))\<rparr>, stG)"
      by blast
    define d where "d = ?HF - ?H0"
    from lenF have HF: "?HF = ?H0 + d" and dl: "?H0 + length ?docs \<le> ?HF"
      by (simp_all add: d_def)
    have "indexFrom S (?H0 + d) ns (map (apsnd (\<lambda>a. a + d)) []) = map (apsnd (\<lambda>a. a + d)) ?m"
      by (rule indexFrom_shift)
    then have m2: "?m2 = map (apsnd (\<lambda>a. a + d)) ?m"
      by (simp add: HF)
    have mbnd: "\<forall>p \<in> set ?m. ?H0 \<le> snd p \<and> snd p < ?H0 + length ?docs"
      by (rule indexFrom_bounds) simp_all
    have pc: "case planOf S ?m ?c i of
                Adopt t \<Rightarrow> planOf S ?m2 ?c2 i = Adopt (t + d) \<and> ?H0 \<le> t \<and> t < ?H0 + length ?docs
              | Reuse t \<Rightarrow> planOf S ?m2 ?c2 i = Reuse t \<and> t < ?H0
              | Fresh v \<Rightarrow> planOf S ?m2 ?c2 i = Fresh v
                  \<or> (\<exists>a. planOf S ?m2 ?c2 i = Reuse a \<and> ?H0 + length ?docs \<le> a \<and> a < ?HF
                         \<and> heap stF ! a = v \<and> v\<lparr>v_url := urlOf i\<rparr> = v)"
      if i: "i \<in> set ?ok" for i
    proof (cases "map_of ?m (cleanUrl (urlOf i))")
      case (Some t)
      then have "(cleanUrl (urlOf i), t) \<in> set ?m"
        by (rule map_of_SomeD)
      with mbnd have "?H0 \<le> t \<and> t < ?H0 + length ?docs"
        by force
      with Some show ?thesis
        by (simp add: planOf_def m2 map_of_shift)
    next
      case None
      note nm = None
      show ?thesis
      proof (cases "metadataFile S (itemId i @ ''.json'')")
        case (Some doc)
        with nm show ?thesis
          by (simp add: planOf_def m2 map_of_shift)
      next
        case None
        note nf = None
        from exF i obtain a where ca: "map_of ?c2 (itemId i) = Some a"
          and pa: "placed (planOf S ?m ?c i) (length ?h1) (heap stF) a"
          by blast
        show ?thesis
        proof (cases "map_of ?c (itemId i)")
          case (Some t)
          from wf_state_valid [OF wf map_of_SomeD [OF Some]] have "t < ?H0" .
          with nm nf Some ca pa show ?thesis
            by (simp add: planOf_def m2 map_of_shift placed_def)
        next
          case None
          with nm nf ca pa show ?thesis
            by (simp add: planOf_def m2 map_of_shift placed_def)
        qed
      qed
    qed
    have wA: "writeAt (planOf S ?m2 ?c2 i) i (x + d) v = writeAt (planOf S ?m ?c i) i x v"
      if "i \<in> set ?ok" "?H0 \<le> x" for i x v
      using pc [OF that(1)] that(2) HF
      by (cases "planOf S ?m ?c i") (auto simp add: writeAt_def)
    have wB: "writeAt (planOf S ?m2 ?c2 i) i x v = writeAt (planOf S ?m ?c i) i x v"
      if "i \<in> set ?ok" "x < ?H0" for i x v
      using pc [OF that(1)] that(2) HF
      by (cases "planOf S ?m ?c i") (auto simp add: writeAt_def)
    have wU: "(\<forall>v. writeAt (planOf S ?m ?c i) i x v = v)
            \<or> (\<exists>u. \<forall>v. writeAt (planOf S ?m ?c i) i x v = v\<lparr>v_url := u\<rparr>)"
      if "i \<in> set ?ok" "x < ?H0" for i x
      using pc [OF that(1)] that(2)
      by (cases "planOf S ?m ?c i") (auto simp add: writeAt_def)
    have wC: "writeAt (planOf S ?m2 ?c2 i) i a (heap stF ! a) = heap stF ! a"
      if "i \<in> set ?ok" "?H0 + length ?docs \<le> a" "a < ?HF" for i a
      using pc [OF that(1)] that(2,3) HF
      by (cases "planOf S ?m ?c i") (auto simp add: writeAt_def)
    have same: "valOf S ?m2 ?c2 ?h2 ?ok j = valOf S ?m ?c ?h1 ?ok j" if j: "j \<in> set ?ok" for j
    proof (cases "planOf S ?m ?c j")
      case (Adopt t)
      with pc [OF j] have p2: "planOf S ?m2 ?c2 j = Adopt (t + d)"
        and t: "?H0 \<le> t" "t < ?H0 + length ?docs"
        by simp_all
      have "?h2 ! (t + d) = ?h1 ! t"
        using t HF by (simp add: nth_append)
      moreover have "finalAt S ?m2 ?c2 ?ok (t + d) v = finalAt S ?m ?c ?ok t v" for v
        unfolding finalAt_def by (rule fold_pointwise) (simp add: wA t)
      ultimately show ?thesis
        using Adopt p2 by (simp add: valOf_def)
    next
      case (Reuse t)
      with pc [OF j] have p2: "planOf S ?m2 ?c2 j = Reuse t" and t: "t < ?H0"
        by simp_all
      from t atF have "heap stF ! t = finalAt S ?m ?c ?ok t (?h1 ! t)"
        by simp
      moreover from t HF have "?h2 ! t = heap stF ! t"
        by (simp add: nth_append)
      moreover have "finalAt S ?m2 ?c2 ?ok t v = finalAt S ?m ?c ?ok t v" for v
        unfolding finalAt_def by (rule fold_pointwise) (simp add: wB t)
      moreover have "finalAt S ?m ?c ?ok t (finalAt S ?m ?c ?ok t v) = finalAt S ?m ?c ?ok t v" for v
        unfolding finalAt_def by (rule fold_url_writes_idem) (rule wU [OF _ t])
      ultimately show ?thesis
        using Reuse p2 by (simp add: valOf_def)
    next
      case (Fresh v)
      with pc [OF j] consider "planOf S ?m2 ?c2 j = Fresh v"
        | a where "planOf S ?m2 ?c2 j = Reuse a" "?H0 + length ?docs \<le> a" "a < ?HF"
            "heap stF ! a = v"
        by auto
      then show ?thesis
      proof cases
        case 1
        with Fresh show ?thesis
          by (simp add: valOf_def)
      next
        case 2
        have "finalAt S ?m2 ?c2 ?ok a (heap stF ! a) = heap stF ! a"
          by (rule finalAt_fixed) (rule wC [OF _ 2(2,3)])
        moreover from 2(3) have "?h2 ! a = heap stF ! a"
          by (simp add: nth_append)
        ultimately show ?thesis
          using Fresh 2 by (simp add: valOf_def)
      qed
    qed
    have "map (valOf S ?m2 ?c2 ?h2 ?ok) ?ok = map (valOf S ?m ?c ?h1 ?ok) ?ok"
      by (rule map_cong [OF refl]) (rule same)
    with run1 run2 show ?thesis
      by simp
  qed
qed

lemma rereadClock_fields:
  "storageHandle (rereadClock clock S) = storageHandle S"
  "metadataList (rereadClock clock S) = metadataList S"
  "metadataFile (rereadClock clock S) = metadataFile S"
  "videoList (rereadClock clock S) = map_option (map (\<lambda>i. i\<lparr>dateNow := clock i\<rparr>)) (videoList S)"
  by (simp_all add: rereadClock_def)

lemma reread_item:
  "itemOk (i\<lparr>dateNow := c\<rparr>) = itemOk i"
  "urlOf (i\<lparr>dateNow := c\<rparr>) = urlOf i"
  "metaOf (i\<lparr>dateNow := c\<rparr>) = metaOf i"
  "itemPrefix (i\<lparr>dateNow := c\<rparr>) = itemPrefix i"
  by (simp_all add: itemOk_def urlOf_def metaOf_def itemPrefix_def)

lemma itemId_prefix: "itemPrefix i \<noteq> [] \<Longrightarrow> itemId i = itemPrefix i"
  by (simp add: itemId_def itemPrefix_def videoIdOf_def or_else_def)

lemma processItem_rereadClock:
  "processItem (rereadClock clock S) m = processItem S m"
  unfolding processItem_def resolve_def priority2_def loadVideoDataFromStorage_def
    rereadClock_fields ..

lemma loadMetadataItem_rereadClock:
  "loadMetadataItem (rereadClock clock S) = loadMetadataItem S"
  unfolding loadMetadataItem_def rereadClock_fields ..

lemma processItem_dateNow:
  assumes "itemOk i \<longrightarrow> itemPrefix i \<noteq> []"
  shows "processItem S m (i\<lparr>dateNow := c\<rparr>) = processItem S m i"
proof (cases "itemOk i")
  case False
  then have "processItem S m (i\<lparr>dateNow := c\<rparr>) s = s" "processItem S m i s = s" for s
    by (simp_all add: processItem_skip itemOk_def)
  then show ?thesis
    by (intro ext) simp
next
  case True
  with assms have "itemId (i\<lparr>dateNow := c\<rparr>) = itemId i"
    by (simp add: itemId_prefix reread_item)
  with True have "processItem S m (i\<lparr>dateNow := c\<rparr>) (st, vm) = processItem S m i (st, vm)" for st vm
    by (simp add: processItem_ok reread_item)
  then show ?thesis
    by (intro ext) auto
qed

lemma distinctPrefixes_nonempty:
  assumes "distinctPrefixes items" and "i \<in> set items" and "itemOk i"
  shows "itemPrefix i \<noteq> []"
proof
  assume "itemPrefix i = []"
  moreover from assms(2,3) have "itemPrefix i \<in> set (map itemPrefix (filter itemOk items))"
    by simp
  ultimately show False
    using assms(1) by (simp add: distinctPrefixes_def)
qed

lemma getVideos_rereadClock:
  assumes "case videoList S of None \<Rightarrow> True
           | Some items \<Rightarrow> \<forall>i \<in> set items. itemOk i \<longrightarrow> itemPrefix i \<noteq> []"
  shows "getVideos getTime (rereadClock clock S) st = getVideos getTime S st"
proof (cases "videoList S")
  case None
  show ?thesis
    unfolding getVideos_def rereadClock_fields loadMetadataItem_rereadClock None
    by (cases "storageHandle S"; cases "metadataList S"; simp)
next
  case (Some items)
  with assms have pre: "\<forall>i \<in> set items. itemOk i \<longrightarrow> itemPrefix i \<noteq> []"
    by simp
  have "fold (processItem S m) (map (\<lambda>i. i\<lparr>dateNow := clock i\<rparr>) items) s
      = fold (processItem S m) items s" for m s
    unfolding fold_map
    by (rule fold_cong) (simp_all add: comp_def processItem_dateNow pre)
  then show ?thesis
    unfolding getVideos_def rereadClock_fields loadMetadataItem_rereadClock
      processItem_rereadClock Some
    by (cases "storageHandle S"; cases "metadataList S"; simp)
qed

lemma examples_wf: "wf_state exState" "wf_state emptyState"
  by (simp_all add: wf_state_def exState_def emptyState_def)

lemma exStorage_items:
  "filter itemOk [blobA, blobB, blobC] = [blobA, blobC]"
  "map itemId [blobA, blobC] = [''1704067200000'', ''1704153600001'']"
  "map itemPrefix [blobA, blobC] = [''1704067200000'', ''1704153600001'']"
  by (simp_all add: itemOk_def itemId_def itemPrefix_def videoIdOf_def
      or_else_def blobA_def blobB_def blobC_def)

text \<open>
  C7 (as amended). Let every reference of the cache point to an object, and let the
  items that are processed have non-empty, pairwise distinct file name prefixes. Then
  a second \<^verbatim>\<open>getVideos\<close> over the same storage, started in the state the first one left
  and at any later clock readings, returns the response of the first. Cached objects
  may be shared between keys, and either listing may fail.
\<close>

theorem getVideos_idempotent_distinct_ids:
  assumes wf: "wf_state st"
    and pre: "case videoList S of None \<Rightarrow> True | Some items \<Rightarrow> distinctPrefixes items"
  shows "fst (getVideos getTime (rereadClock clock S) (snd (getVideos getTime S st))) =
         fst (getVideos getTime S st)"
proof -
  have ne: "case videoList S of None \<Rightarrow> True
           | Some items \<Rightarrow> \<forall>i \<in> set items. itemOk i \<longrightarrow> itemPrefix i \<noteq> []"
    using pre by (auto simp add: distinctPrefixes_nonempty split: option.splits)
  have ids: "case videoList S of None \<Rightarrow> True
              | Some items \<Rightarrow> distinct (map itemId (filter itemOk items))"
  proof (cases "videoList S")
    case None
    then show ?thesis by simp
  next
    case (Some items)
    with pre have d: "distinctPrefixes items"
      by simp
    then have "itemPrefix i \<noteq> []" if "i \<in> set (filter itemOk items)" for i
      using that by (simp add: distinctPrefixes_nonempty)
    then have eq: "map itemId (filter itemOk items) = map itemPrefix (filter itemOk items)"
      by (intro map_cong [OF refl]) (simp add: itemId_prefix)
    show ?thesis
      unfolding Some option.case eq using d by (simp add: distinctPrefixes_def)
  qed
  from getVideos_rereadClock [OF ne] getVideos_twice [OF wf ids]
  show ?thesis
    by simp
qed

theorem getVideos_idempotent_distinct_ids_witness:
  "wf_state exState \<and> videoList exStorage = Some [blobA, blobB, blobC]
   \<and> distinctPrefixes [blobA, blobB, blobC]
   \<and> fst (getVideos exTime (rereadClock (\<lambda>i. ''1704326400000'') exStorage)
            (snd (getVideos exTime exStorage exState))) =
       fst (getVideos exTime exStorage exState)"
proof -
  have vl: "videoList exStorage = Some [blobA, blobB, blobC]"
    by (simp add: exStorage_def)
  have r: "distinctPrefixes [blobA, blobB, blobC]"
    unfolding distinctPrefixes_def exStorage_items by simp
  from vl r have "case videoList exStorage of None \<Rightarrow> True | Some items \<Rightarrow> distinctPrefixes items"
    by simp
  from getVideos_idempotent_distinct_ids [OF examples_wf(1) this, of exTime "\<lambda>i. ''1704326400000''"]
    vl r examples_wf(1)
  show ?thesis
    by simp
qed

text \<open>
  C7 as stated fails. In \<open>collidingStorage\<close> two blobs share an id prefix. Starting
  from the empty cache, the first run returns the record synthesized for blob b; it
  leaves the metadata record of blob a cached under the shared id, and the second run
  over the same storage returns that record instead.
\<close>

lemma colliding_first_run:
  "fst (getVideos exTime collidingStorage emptyState) =
     \<lparr>success = True, error = None,
      data = Some [\<lparr>v_id = ''1700000000000'', v_name = ''b.mp4'',
                    v_url = ''https://storage/videos/1700000000000_b.mp4?token=t2'', v_size = 20,
                    uploadedAt = ''2024-01-01T00:00:00.000Z'', transcription = None,
                    v_status = Completed\<rparr>]\<rparr>"
  "snd (getVideos exTime collidingStorage emptyState) =
     \<lparr>heap = [holidayDoc\<lparr>v_id := ''1700000000000'',
                           v_url := ''https://storage/videos/1700000000000_a.mp4?token=t1''\<rparr>,
              \<lparr>v_id = ''1700000000000'', v_name = ''b.mp4'',
               v_url = ''https://storage/videos/1700000000000_b.mp4?token=t2'', v_size = 20,
               uploadedAt = ''2024-01-01T00:00:00.000Z'', transcription = None,
               v_status = Completed\<rparr>],
      videos = [(''1700000000000'', 0)]\<rparr>"
  by (simp_all add: getVideos_def collidingStorage_def emptyState_def loadMetadataItem_def
      processItem_def resolve_cases addToMap_def alloc_def cleanUrl_def videoIdOf_def or_else_def
      displayName_def substring_def indexOf_def hasTranscriptionText_def holidayDoc_def
      sortByUploadedAt_single valuesOf_def Let_def)

lemma colliding_second_run:
  "fst (getVideos exTime collidingStorage
     \<lparr>heap = [holidayDoc\<lparr>v_id := ''1700000000000'',
                           v_url := ''https://storage/videos/1700000000000_a.mp4?token=t1''\<rparr>,
              \<lparr>v_id = ''1700000000000'', v_name = ''b.mp4'',
               v_url = ''https://storage/videos/1700000000000_b.mp4?token=t2'', v_size = 20,
               uploadedAt = ''2024-01-01T00:00:00.000Z'', transcription = None,
               v_status = Completed\<rparr>],
      videos = [(''1700000000000'', 0)]\<rparr>) =
     \<lparr>success = True, error = None,
      data = Some [\<lparr>v_id = ''1700000000000'', v_name = ''holiday.mp4'',
                    v_url = ''https://storage/videos/1700000000000_b.mp4?token=t2'', v_size = 10,
                    uploadedAt = ''2024-01-01T00:00:05.000Z'', transcription = None,
                    v_status = Processing\<rparr>]\<rparr>"
  by (simp add: getVideos_def collidingStorage_def loadMetadataItem_def
      processItem_def resolve_cases addToMap_def alloc_def cleanUrl_def videoIdOf_def or_else_def
      displayName_def substring_def indexOf_def hasTranscriptionText_def holidayDoc_def
      sortByUploadedAt_single valuesOf_def Let_def)

theorem getVideos_idempotent_counterexample:
  "fst (getVideos exTime collidingStorage (snd (getVideos exTime collidingStorage emptyState)))
     \<noteq> fst (getVideos exTime collidingStorage emptyState)"
  unfolding colliding_first_run colliding_second_run by simp

section \<open>Failures of single items\<close>





end
